theory Spec2Isabelle
  imports Complex_Main "HOL-Library.Log_Nat" "HOL-Library.AList" "HOL-Library.Multiset"
begin

section \<open>JavaScript numbers\<close>

text \<open>
  A JavaScript \<^verbatim>\<open>number\<close> is an IEEE 754 binary64 value. A finite one is modelled by the
  rational it denotes, and every \<^verbatim>\<open>/\<close> and \<^verbatim>\<open>*\<close> of the source rounds its exact result
  to the nearest binary64 value, ties to even (\<open>binary64\<close>). The exponent range is not
  modelled (no overflow to Infinity, no subnormals): the program divides run counts and
  durations, which stay far inside it. A result that is not finite (\<^verbatim>\<open>NaN\<close>,
  \<^verbatim>\<open>Infinity\<close>, \<^verbatim>\<open>-Infinity\<close>: here only from a division by zero) is \<open>None\<close>; it stays
  non-finite under \<^verbatim>\<open>* 100\<close>, \<^verbatim>\<open>Math.ceil\<close> and \<^verbatim>\<open>Math.round\<close>.
\<close>

definition pow2 :: "int \<Rightarrow> rat" where
  "pow2 e = (if 0 \<le> e then 2 ^ nat e else 1 / 2 ^ nat (- e))"

text \<open>For \<open>0 < x\<close>, \<open>ilog2 x\<close> is the exponent \<open>e\<close> with \<open>2^e \<le> x < 2^(e+1)\<close>.\<close>

definition ilog2 :: "rat \<Rightarrow> int" where
  "ilog2 x = (let (a, b) = quotient_of x; k = bitlen a - bitlen b
              in if pow2 k \<le> x then k else k - 1)"

text \<open>Rounding to the nearest integer, ties to the even one.\<close>

definition rne :: "rat \<Rightarrow> int" where
  "rne x = (let f = \<lfloor>x\<rfloor>; r = x - of_int f
            in if r < 1 / 2 then f
               else if 1 / 2 < r then f + 1
               else if even f then f else f + 1)"

text \<open>Rounding to 53 significant bits.\<close>

definition binary64 :: "rat \<Rightarrow> rat" where
  "binary64 x = (if x = 0 then 0
                 else let u = pow2 (ilog2 \<bar>x\<bar> - 52) in of_int (rne (x / u)) * u)"

text \<open>\<^verbatim>\<open>x / c\<close> for a non-zero divisor.\<close>

definition js_quot :: "rat \<Rightarrow> rat \<Rightarrow> rat" where
  "js_quot x y = binary64 (x / y)"

text \<open>\<^verbatim>\<open>x / y\<close> for a divisor that may be zero (an array length).\<close>

definition js_div :: "rat \<Rightarrow> rat \<Rightarrow> rat option" where
  "js_div x y = (if y = 0 then None else Some (js_quot x y))"

definition js_mul :: "rat \<Rightarrow> rat \<Rightarrow> rat" where
  "js_mul x y = binary64 (x * y)"

definition js_sub :: "rat \<Rightarrow> rat \<Rightarrow> rat" where
  "js_sub x y = binary64 (x - y)"

definition Math_floor :: "rat \<Rightarrow> int" where
  "Math_floor x = \<lfloor>x\<rfloor>"

definition Math_ceil :: "rat \<Rightarrow> int" where
  "Math_ceil x = \<lceil>x\<rceil>"

text \<open>\<^verbatim>\<open>Math.round\<close> rounds to the nearest integer, a tie towards \<open>+\<infinity>\<close>.\<close>

definition Math_round :: "rat \<Rightarrow> int" where
  "Math_round x = \<lfloor>x + 1 / 2\<rfloor>"

section \<open>Arrays\<close>

text \<open>Reading an array at an index outside it yields \<^verbatim>\<open>undefined\<close>: \<open>None\<close>.\<close>

definition array_get :: "'a list \<Rightarrow> int \<Rightarrow> 'a option" where
  "array_get xs i = (if 0 \<le> i \<and> i < int (length xs) then Some (xs ! nat i) else None)"

text \<open>\<^verbatim>\<open>Array.prototype.findIndex\<close>: the first index whose element satisfies the
  predicate, \<open>-1\<close> when there is none.\<close>

fun findIndex :: "('a \<Rightarrow> bool) \<Rightarrow> 'a list \<Rightarrow> int" where
  "findIndex P [] = - 1"
| "findIndex P (x # xs) =
     (if P x then 0 else (let i = findIndex P xs in if i < 0 then - 1 else i + 1))"

section \<open>The data model\<close>

text \<open>\<^verbatim>\<open>interface WorkflowRun\<close>. The duration is the \<^verbatim>\<open>Math.floor\<close> of a quotient of
  integers, an integer.\<close>

record WorkflowRun =
  run_id :: int
  status :: string
  created_at :: string
  updated_at :: string
  durationSeconds :: int

text \<open>\<^verbatim>\<open>class WorkflowGroup\<close>.\<close>

record WorkflowGroup =
  runs :: "WorkflowRun list"

section \<open>The percentile engine of src/index.ts\<close>

text \<open>\<^verbatim>\<open>durations.sort((a, b) => a - b)\<close> is the ascending numeric sort.\<close>

definition getNthPercentileDuration :: "WorkflowGroup \<Rightarrow> rat \<Rightarrow> int option" where
  "getNthPercentileDuration g percentile =
     (let durations = map durationSeconds (runs g);
          sortedDurations = sort durations;
          index = Math_floor (js_mul (js_quot percentile 100)
                                     (of_nat (length sortedDurations)))
      in array_get sortedDurations index)"

definition getPercentileForDuration :: "WorkflowGroup \<Rightarrow> rat \<Rightarrow> int option" where
  "getPercentileForDuration g d =
     (let durations = map durationSeconds (runs g);
          sortedDurations = sort durations;
          index = findIndex (\<lambda>v. d \<le> of_int v) sortedDurations;
          percentile = map_option (\<lambda>q. js_mul q 100)
                         (js_div (of_int index) (of_nat (length sortedDurations)))
      in map_option Math_ceil percentile)"

section \<open>The percentile engine of the second source file\<close>

text \<open>\<^verbatim>\<open>durations.sort((a, b) => b - a)\<close> is the descending numeric sort.\<close>

definition getNthPercentileDuration_part000 :: "WorkflowGroup \<Rightarrow> rat \<Rightarrow> int option" where
  "getNthPercentileDuration_part000 g percentile =
     (let durations = map durationSeconds (runs g);
          sortedDurations = sort_key uminus durations;
          index = Math_floor (js_mul (js_quot percentile 100)
                                     (of_nat (length sortedDurations)))
      in array_get sortedDurations index)"

definition getPercentileForDuration_part000 :: "WorkflowGroup \<Rightarrow> rat \<Rightarrow> int option" where
  "getPercentileForDuration_part000 g d =
     (let durations = map durationSeconds (runs g);
          sortedDurations = sort_key uminus durations;
          index = findIndex (\<lambda>v. d \<le> of_int v) sortedDurations;
          percentile = map_option (\<lambda>q. js_mul q 100)
                         (js_div (of_int index) (of_nat (length sortedDurations)))
      in map_option Math_ceil percentile)"

section \<open>The run normalizer (\<^verbatim>\<open>getWorkflowRuns\<close>, the same in both source files)\<close>

text \<open>An entry of a page of \<^verbatim>\<open>listWorkflowRuns\<close>: the fields the code reads. The
  conclusion may be absent (\<^verbatim>\<open>undefined\<close>), \<^verbatim>\<open>null\<close> or a string.\<close>

datatype conclusion = Undefined | Null | Concluded string

record ResponseWorkflowRun =
  response_id :: int
  response_status :: string
  response_conclusion :: conclusion
  response_created_at :: string
  response_updated_at :: string

definition unfinished_statuses :: "string list" where
  "unfinished_statuses = [''in_progress'', ''queued'', ''requested'', ''waiting'', ''pending'']"

text \<open>
  The body of the inner \<^verbatim>\<open>for\<close> loop; \<open>None\<close> is \<^verbatim>\<open>continue\<close>. The parameter
  \<open>getTime\<close> is \<^verbatim>\<open>new Date(s).getTime()\<close>, the platform's parser of timestamp strings to
  milliseconds since the epoch (the strings of the API are valid dates). The second
  file passes a \<^verbatim>\<open>created\<close> date range to the source; the loop is the same.
\<close>

definition normalizeRun :: "(string \<Rightarrow> int) \<Rightarrow> ResponseWorkflowRun \<Rightarrow> WorkflowRun option" where
  "normalizeRun getTime responseWorkflowRun =
     (if response_conclusion responseWorkflowRun = Undefined then None
      else let st = response_status responseWorkflowRun
           in if st \<in> set unfinished_statuses then None
              else let createdAt = getTime (response_created_at responseWorkflowRun);
                       updatedAt = getTime (response_updated_at responseWorkflowRun);
                       seconds = Math_floor
                                   (js_quot (js_sub (of_int updatedAt) (of_int createdAt)) 1000)
                   in Some \<lparr>run_id = response_id responseWorkflowRun,
                            status = (case response_conclusion responseWorkflowRun of
                                        Concluded c \<Rightarrow> c
                                      | _ \<Rightarrow> st),
                            created_at = response_created_at responseWorkflowRun,
                            updated_at = response_updated_at responseWorkflowRun,
                            durationSeconds = seconds\<rparr>)"

text \<open>The paginated source yields pages until it is exhausted or a fetch throws; the
  \<^verbatim>\<open>catch\<close> logs the error and keeps the runs collected so far.\<close>

datatype page = Page "ResponseWorkflowRun list" | FetchError

fun collectRuns :: "(string \<Rightarrow> int) \<Rightarrow> page list \<Rightarrow> WorkflowRun list" where
  "collectRuns getTime [] = []"
| "collectRuns getTime (FetchError # ps) = []"
| "collectRuns getTime (Page rs # ps) =
     List.map_filter (normalizeRun getTime) rs @ collectRuns getTime ps"

section \<open>The status grouping aggregator\<close>

text \<open>A JavaScript \<^verbatim>\<open>Map\<close> iterates in insertion order: an association list, where
  \<^verbatim>\<open>set\<close> replaces the value of a present key in place and appends an absent one
  (\<open>AList.update\<close>), and \<^verbatim>\<open>get\<close> is \<open>map_of\<close>.\<close>

type_synonym GroupedWorkflowRuns = "(string \<times> WorkflowGroup) list"

text \<open>The callback of \<^verbatim>\<open>workflowRuns.forEach\<close>.\<close>

definition groupRuns_step :: "GroupedWorkflowRuns \<Rightarrow> WorkflowRun \<Rightarrow> GroupedWorkflowRuns" where
  "groupRuns_step groupedRuns groupRun =
     (let st = status groupRun;
          groupedRuns1 = (if map_of groupedRuns st = None
                          then AList.update st \<lparr>runs = []\<rparr> groupedRuns
                          else groupedRuns)
      in case map_of groupedRuns1 st of
           None \<Rightarrow> groupedRuns1
         | Some grp \<Rightarrow>
             AList.update st (grp\<lparr>runs := runs grp @ [groupRun]\<rparr>) groupedRuns1)"

definition groupRuns :: "WorkflowRun list \<Rightarrow> GroupedWorkflowRuns" where
  "groupRuns workflowRuns = foldl groupRuns_step [] workflowRuns"

definition getWorkflowRuns :: "(string \<Rightarrow> int) \<Rightarrow> page list \<Rightarrow> GroupedWorkflowRuns" where
  "getWorkflowRuns getTime pages = groupRuns (collectRuns getTime pages)"

section \<open>The workflow resolver\<close>

text \<open>The outcome of one call of \<^verbatim>\<open>github.rest.actions.getWorkflowRun\<close>: it throws, or
  it returns a run with a workflow identifier. The service is a function from the number
  of the call (from 0) to its outcome.\<close>

datatype lookup = LookupFails | LookupReturns int

text \<open>
  src/index.ts: \<^verbatim>\<open>while (workflow_id === 0) { try { ... } catch { sleep; log } }\<close>.
  \<open>resolveWorkflowId service k\<close> is the loop about to make call \<open>k\<close>; it returns the
  identifier and the number of calls made. \<open>None\<close> is a loop that never returns.
\<close>

partial_function (option) resolveWorkflowId :: "(nat \<Rightarrow> lookup) \<Rightarrow> nat \<Rightarrow> (int \<times> nat) option" where
  "resolveWorkflowId service k =
     (case service k of
        LookupFails \<Rightarrow> resolveWorkflowId service (Suc k)
      | LookupReturns workflow_id \<Rightarrow>
          if workflow_id = 0 then resolveWorkflowId service (Suc k)
          else Some (workflow_id, Suc k))"

datatype error = TypeError | RequestError

text \<open>The second source file: one call, not in a \<^verbatim>\<open>try\<close>; its exception leaves
  \<^verbatim>\<open>summarizeHistory\<close>.\<close>

definition resolveWorkflowId_part000 :: "(nat \<Rightarrow> lookup) \<Rightarrow> error + int \<times> nat" where
  "resolveWorkflowId_part000 service =
     (case service 0 of
        LookupFails \<Rightarrow> Inl RequestError
      | LookupReturns workflow_id \<Rightarrow> Inr (workflow_id, 1))"

section \<open>The report assembler\<close>

text \<open>
  The sections handed to \<^verbatim>\<open>core.summary\<close>, with the numbers the template strings print
  (a number that is not finite, or \<^verbatim>\<open>undefined\<close>, is \<open>None\<close>). The assembler is the
  callback of \<^verbatim>\<open>getWorkflowRuns(...).then\<close>; an exception in it is \<open>Inl\<close> and nothing is
  written, since \<^verbatim>\<open>core.summary.write()\<close> is its last statement. The heading naming the
  workflow, which the second file adds before it fetches the runs, comes from the
  workflow-definition lookup and is not part of the model.
\<close>

datatype report_section =
    TotalRuns nat
  | SuccessRate "int option" nat nat
  | RunCount string nat
  | PercentileTable "int option" "int option" "int option"
  | BreakdownHeading
  | BreakdownTable "(string \<times> rat option) list"

definition totalRuns :: "GroupedWorkflowRuns \<Rightarrow> nat" where
  "totalRuns m = foldl (\<lambda>total_runs grp. total_runs + length (runs grp)) 0 (map snd m)"

definition successRate :: "WorkflowGroup \<Rightarrow> WorkflowGroup \<Rightarrow> int option" where
  "successRate success failure =
     map_option (\<lambda>q. Math_round (js_mul q 100))
       (js_div (of_nat (length (runs success)))
               (of_nat (length (runs success) + length (runs failure))))"

text \<open>\<^verbatim>\<open>Array.prototype.map\<close> with a callback that may throw.\<close>

fun map_rows :: "('k \<Rightarrow> error + 'a) \<Rightarrow> 'k list \<Rightarrow> error + 'a list" where
  "map_rows f [] = Inr []"
| "map_rows f (k # ks) =
     (case f k of
        Inl e \<Rightarrow> Inl e
      | Inr row \<Rightarrow> (case map_rows f ks of Inl e \<Rightarrow> Inl e | Inr rows \<Rightarrow> Inr (row # rows)))"

text \<open>src/index.ts: \<^verbatim>\<open>groupedWorkflowRuns.get(status)!.runs.length / totalRuns * 100\<close>.\<close>

definition breakdownRow :: "GroupedWorkflowRuns \<Rightarrow> nat \<Rightarrow> string \<Rightarrow> error + string \<times> rat option" where
  "breakdownRow m total_runs st =
     (case map_of m st of
        None \<Rightarrow> Inl TypeError
      | Some grp \<Rightarrow>
          Inr (st, map_option (\<lambda>q. js_mul q 100)
                     (js_div (of_nat (length (runs grp))) (of_nat total_runs))))"

text \<open>The second source file wraps the same quotient in \<^verbatim>\<open>Math.ceil\<close>.\<close>

definition breakdownRow_part000 :: "GroupedWorkflowRuns \<Rightarrow> nat \<Rightarrow> string \<Rightarrow> error + string \<times> rat option" where
  "breakdownRow_part000 m total_runs st =
     (case map_of m st of
        None \<Rightarrow> Inl TypeError
      | Some grp \<Rightarrow>
          Inr (st, map_option (\<lambda>q. of_int (Math_ceil (js_mul q 100)))
                     (js_div (of_nat (length (runs grp))) (of_nat total_runs))))"

text \<open>src/index.ts reads \<^verbatim>\<open>success.runs\<close> and \<^verbatim>\<open>failure.runs\<close> with no check that the two
  groups exist.\<close>

definition summarizeHistory_report :: "GroupedWorkflowRuns \<Rightarrow> error + report_section list" where
  "summarizeHistory_report m =
     (let total_runs = totalRuns m
      in case (map_of m ''success'', map_of m ''failure'') of
           (Some success, Some failure) \<Rightarrow>
             (case map_rows (breakdownRow m total_runs) (map fst m) of
                Inl e \<Rightarrow> Inl e
              | Inr table \<Rightarrow>
                  Inr [TotalRuns total_runs,
                       SuccessRate (successRate success failure) (length (runs success))
                         (length (runs success) + length (runs failure)),
                       RunCount ''successful'' (length (runs success)),
                       PercentileTable (getNthPercentileDuration success 99)
                         (getNthPercentileDuration success 90)
                         (getNthPercentileDuration success 50),
                       RunCount ''failing'' (length (runs failure)),
                       PercentileTable (getNthPercentileDuration failure 99)
                         (getNthPercentileDuration failure 90)
                         (getNthPercentileDuration failure 50),
                       BreakdownHeading,
                       BreakdownTable table])
         | _ \<Rightarrow> Inl TypeError)"

text \<open>The second source file guards every section.\<close>

definition successRateSection :: "WorkflowGroup option \<Rightarrow> WorkflowGroup option \<Rightarrow> report_section list" where
  "successRateSection success failure =
     (case (success, failure) of
        (Some s, Some f) \<Rightarrow>
          if length (runs s) + length (runs f) > 0
          then [SuccessRate (successRate s f) (length (runs s))
                  (length (runs s) + length (runs f))]
          else []
      | _ \<Rightarrow> [])"

definition percentileSection :: "string \<Rightarrow> WorkflowGroup option \<Rightarrow> report_section list" where
  "percentileSection label grp =
     (case grp of
        Some g \<Rightarrow>
          if length (runs g) > 0
          then [RunCount label (length (runs g)),
                PercentileTable (getNthPercentileDuration_part000 g 99)
                  (getNthPercentileDuration_part000 g 90)
                  (getNthPercentileDuration_part000 g 50)]
          else []
      | None \<Rightarrow> [])"

definition summarizeHistory_report_part000 :: "GroupedWorkflowRuns \<Rightarrow> error + report_section list" where
  "summarizeHistory_report_part000 m =
     (let total_runs = totalRuns m;
          success = map_of m ''success'';
          failure = map_of m ''failure'';
          sections = [TotalRuns total_runs] @ successRateSection success failure
                     @ percentileSection ''successful'' success
                     @ percentileSection ''failing'' failure
      in if total_runs > 0
         then (case map_rows (breakdownRow_part000 m total_runs) (map fst m) of
                 Inl e \<Rightarrow> Inl e
               | Inr table \<Rightarrow> Inr (sections @ [BreakdownHeading, BreakdownTable table]))
         else Inr sections)"

section \<open>The partition the aggregator is specified to produce\<close>

text \<open>
  Following the specification's words, not the code: one group per status that occurs, in
  the order the statuses first occur, each holding the runs of that status in arrival
  order. The aggregator of the source is compared with it below.
\<close>

definition partition_by_status :: "WorkflowRun list \<Rightarrow> GroupedWorkflowRuns" where
  "partition_by_status rs =
     map (\<lambda>k. (k, \<lparr>runs = filter (\<lambda>r. status r = k) rs\<rparr>))
       (rev (remdups (rev (map status rs))))"

section \<open>The normalizer as the specification words it\<close>

text \<open>
  Following the specification's words, not the code: the entries fetched before the
  source fails, the entries that are retained (a defined conclusion, a reported status
  outside the unfinished ones), and the effective status of an entry (its conclusion when
  that is a string, its reported status otherwise).
\<close>

fun fetched_entries :: "page list \<Rightarrow> ResponseWorkflowRun list" where
  "fetched_entries [] = []"
| "fetched_entries (FetchError # ps) = []"
| "fetched_entries (Page rs # ps) = rs @ fetched_entries ps"

definition retained :: "ResponseWorkflowRun \<Rightarrow> bool" where
  "retained e \<longleftrightarrow> response_conclusion e \<noteq> Undefined \<and> response_status e \<notin> set unfinished_statuses"

definition effective_status :: "ResponseWorkflowRun \<Rightarrow> string" where
  "effective_status e = (case response_conclusion e of Concluded c \<Rightarrow> c | _ \<Rightarrow> response_status e)"

section \<open>Example inputs\<close>

text \<open>A run of a given duration and status, and a group of such runs.\<close>

definition run_of :: "string \<Rightarrow> int \<Rightarrow> WorkflowRun" where
  "run_of st d = \<lparr>run_id = d, status = st, created_at = [], updated_at = [],
                 durationSeconds = d\<rparr>"

definition group_of :: "int list \<Rightarrow> WorkflowGroup" where
  "group_of ds = \<lparr>runs = map (run_of ''success'') ds\<rparr>"

text \<open>A lookup service that always throws, and one that throws twice and then answers.\<close>

definition always_fails :: "nat \<Rightarrow> lookup" where
  "always_fails k = LookupFails"

definition fails_twice :: "nat \<Rightarrow> lookup" where
  "fails_twice k = (if k < 2 then LookupFails else LookupReturns 42)"

text \<open>The value of \<^verbatim>\<open>new Date(s).getTime()\<close> on the two timestamps used below, ten
  seconds apart.\<close>

definition epoch_clock :: "string \<Rightarrow> int" where
  "epoch_clock s = (if s = ''1970-01-01T00:00:10Z'' then 10000 else 0)"

definition raw_run :: "string \<Rightarrow> conclusion \<Rightarrow> string \<Rightarrow> string \<Rightarrow> ResponseWorkflowRun" where
  "raw_run st c created updated =
     \<lparr>response_id = 1, response_status = st, response_conclusion = c,
      response_created_at = created, response_updated_at = updated\<rparr>"

text \<open>Scenario A of the specification: ten runs of 10, 20, ..., 100 seconds.\<close>

definition scenario_A :: WorkflowGroup where
  "scenario_A = group_of [10, 20, 30, 40, 50, 60, 70, 80, 90, 100]"

definition example_runs :: "WorkflowRun list" where
  "example_runs = [run_of ''success'' 7, run_of ''failure'' 2, run_of ''success'' 3]"

text \<open>Two pages, a failing fetch between them.\<close>

definition example_pages :: "page list" where
  "example_pages =
     [Page [raw_run ''completed'' (Concluded ''success'') ''1970-01-01T00:00:00Z'' ''1970-01-01T00:00:10Z'',
            raw_run ''queued'' Null ''1970-01-01T00:00:00Z'' ''1970-01-01T00:00:00Z'',
            raw_run ''in_progress'' (Concluded ''failure'') ''1970-01-01T00:00:00Z'' ''1970-01-01T00:00:10Z'',
            raw_run ''completed'' Undefined ''1970-01-01T00:00:00Z'' ''1970-01-01T00:00:10Z''],
      FetchError,
      Page [raw_run ''completed'' (Concluded ''failure'') ''1970-01-01T00:00:00Z'' ''1970-01-01T00:00:10Z'']]"

text \<open>Grouped runs with no failure at all, and with one success in three runs.\<close>

definition only_success :: GroupedWorkflowRuns where
  "only_success = groupRuns [run_of ''success'' 7]"

definition one_of_three :: GroupedWorkflowRuns where
  "one_of_three = groupRuns [run_of ''success'' 7, run_of ''failure'' 2, run_of ''failure'' 3]"

section \<open>Rounding to binary64: the facts used below\<close>

lemma pow2_powi: "pow2 e = 2 powi e"
  by (simp add: pow2_def power_int_def inverse_eq_divide power_one_over)

lemma pow2_pos: "0 < pow2 e"
  by (simp add: pow2_powi)

lemma pow2_add: "pow2 (a + b) = pow2 a * pow2 b"
  by (simp add: pow2_powi power_int_add)

lemma pow2_mono: "a \<le> b \<Longrightarrow> pow2 a \<le> pow2 b"
  by (simp add: pow2_powi power_int_increasing)

lemma pow2_less: "a < b \<Longrightarrow> pow2 a < pow2 b"
  by (simp add: pow2_powi power_int_strict_increasing)

lemma pow2_diff: "pow2 a / pow2 b = pow2 (a - b)"
  by (simp add: pow2_powi power_int_diff)

lemma pow2_nat: "0 \<le> e \<Longrightarrow> pow2 e = of_int (2 ^ nat e)"
  by (simp add: pow2_def)

lemma ilog2_bounds:
  assumes "0 < x"
  shows "pow2 (ilog2 x) \<le> x \<and> x < pow2 (ilog2 x + 1)"
proof -
  obtain a b where q: "quotient_of x = (a, b)" by (cases "quotient_of x")
  have b: "0 < b" using q by (rule quotient_of_denom_pos)
  have x: "x = of_int a / of_int b" using q by (rule quotient_of_div)
  have a: "0 < a" using assms b x by (simp add: zero_less_divide_iff)
  define k where "k = bitlen a - bitlen b"
  have la: "1 \<le> bitlen a" and lb: "1 \<le> bitlen b"
    using a b by (auto simp: bitlen_alt_def)
  have a1: "pow2 (bitlen a - 1) \<le> of_int a" and a2: "of_int a < pow2 (bitlen a)"
  proof -
    have "rat_of_int (2 ^ nat (bitlen a - 1)) \<le> of_int a" using bitlen_bounds[OF a] by (simp only: of_int_le_iff)
    then show "pow2 (bitlen a - 1) \<le> of_int a" using la by (simp add: pow2_nat)
    have "rat_of_int a < of_int (2 ^ nat (bitlen a))" using bitlen_bounds[OF a] by (simp only: of_int_less_iff)
    then show "of_int a < pow2 (bitlen a)" using la by (simp add: pow2_nat)
  qed
  have b1: "pow2 (bitlen b - 1) \<le> of_int b" and b2: "of_int b < pow2 (bitlen b)"
  proof -
    have "rat_of_int (2 ^ nat (bitlen b - 1)) \<le> of_int b" using bitlen_bounds[OF b] by (simp only: of_int_le_iff)
    then show "pow2 (bitlen b - 1) \<le> of_int b" using lb by (simp add: pow2_nat)
    have "rat_of_int b < of_int (2 ^ nat (bitlen b))" using bitlen_bounds[OF b] by (simp only: of_int_less_iff)
    then show "of_int b < pow2 (bitlen b)" using lb by (simp add: pow2_nat)
  qed
  have rb: "0 < rat_of_int b" using b by simp
  have "pow2 (k - 1) * of_int b < pow2 (k - 1) * pow2 (bitlen b)"
    using b2 pow2_pos[of "k - 1"] by simp
  also have "\<dots> = pow2 (bitlen a - 1)"
    by (simp add: k_def flip: pow2_add)
  also have "\<dots> \<le> of_int a" by (rule a1)
  finally have lo: "pow2 (k - 1) < x"
    using rb by (simp add: x pos_less_divide_eq)
  have "of_int a < pow2 (bitlen a)" by (rule a2)
  also have "\<dots> = pow2 (k + 1) * pow2 (bitlen b - 1)"
    by (simp add: k_def flip: pow2_add)
  also have "\<dots> \<le> pow2 (k + 1) * of_int b"
    using b1 pow2_pos[of "k + 1"] by simp
  finally have hi: "x < pow2 (k + 1)"
    using rb by (simp add: x pos_divide_less_eq)
  have il: "ilog2 x = (if pow2 k \<le> x then k else k - 1)"
    by (simp add: ilog2_def q k_def)
  show ?thesis
  proof (cases "pow2 k \<le> x")
    case True
    then show ?thesis using hi by (simp add: il)
  next
    case False
    then show ?thesis using lo by (simp add: il)
  qed
qed

lemma rne_of_int: "rne (of_int n) = n"
  by (simp add: rne_def)

lemma rne_bounds: "\<lfloor>x\<rfloor> \<le> rne x \<and> rne x \<le> \<lfloor>x\<rfloor> + 1"
  by (simp add: rne_def Let_def)

lemma rne_mono:
  assumes "x \<le> y"
  shows "rne x \<le> rne y"
proof (cases "\<lfloor>x\<rfloor> = \<lfloor>y\<rfloor>")
  case True
  have "x - of_int \<lfloor>y\<rfloor> \<le> y - of_int \<lfloor>y\<rfloor>" using assms by simp
  then show ?thesis
    unfolding rne_def Let_def True by auto
next
  case False
  then have "\<lfloor>x\<rfloor> < \<lfloor>y\<rfloor>" using floor_mono[OF assms] by simp
  then show ?thesis using rne_bounds[of x] rne_bounds[of y] by linarith
qed

lemma rne_minus: "rne (- x) = - rne x"
proof (cases "x \<in> \<int>")
  case True
  then obtain n where "x = of_int n" by (auto elim: Ints_cases)
  then show ?thesis using rne_of_int[of n] rne_of_int[of "- n"] by simp
next
  case False
  then have ne: "of_int \<lfloor>x\<rfloor> \<noteq> x" by (metis Ints_of_int)
  then have fl: "\<lfloor>- x\<rfloor> = - \<lfloor>x\<rfloor> - 1"
    by (simp add: floor_minus ceiling_altdef)
  show ?thesis
    unfolding rne_def Let_def fl by (auto simp: field_simps)
qed

lemma ilog2_unique:
  assumes "pow2 e \<le> x" "x < pow2 (e + 1)"
  shows "ilog2 x = e"
proof -
  have x: "0 < x" using assms(1) pow2_pos[of e] by simp
  note b = ilog2_bounds[OF x]
  have "pow2 e < pow2 (ilog2 x + 1)" using assms(1) b by simp
  then have 1: "e < ilog2 x + 1" by (metis not_le pow2_mono)
  have "pow2 (ilog2 x) < pow2 (e + 1)" using assms(2) b by simp
  then have 2: "ilog2 x < e + 1" by (metis not_le pow2_mono)
  from 1 2 show ?thesis by simp
qed

lemma rne_below:
  assumes "y < of_int N - 1 / 2"
  shows "rne y \<le> N - 1"
proof -
  have "y < of_int N" using assms by simp
  then have f: "\<lfloor>y\<rfloor> \<le> N - 1" by (simp add: floor_less_iff)
  show ?thesis
  proof (cases "\<lfloor>y\<rfloor> = N - 1")
    case True
    have "y - of_int \<lfloor>y\<rfloor> < 1 / 2" using assms by (simp add: True)
    then have "rne y = \<lfloor>y\<rfloor>" by (simp add: rne_def Let_def)
    then show ?thesis using True by simp
  next
    case False
    then have "\<lfloor>y\<rfloor> \<le> N - 2" using f by simp
    then show ?thesis using rne_bounds[of y] by linarith
  qed
qed

lemma binary64_minus: "binary64 (- x) = - binary64 x"
  by (simp add: binary64_def Let_def rne_minus)

lemma scaled_bounds:
  assumes "0 < x"
  shows "pow2 52 \<le> x / pow2 (ilog2 x - 52) \<and> x / pow2 (ilog2 x - 52) < pow2 53"
proof -
  note b = ilog2_bounds[OF assms]
  have u: "0 < pow2 (ilog2 x - 52)" by (rule pow2_pos)
  have 1: "pow2 52 * pow2 (ilog2 x - 52) = pow2 (ilog2 x)"
    by (simp flip: pow2_add)
  have 2: "pow2 53 * pow2 (ilog2 x - 52) = pow2 (ilog2 x + 1)"
    using pow2_add[of 53 "ilog2 x - 52"] by (simp add: add.commute)
  show ?thesis using b u by (simp add: pos_le_divide_eq pos_divide_less_eq 1 2)
qed

lemma rne_scaled_bounds:
  assumes "0 < x"
  shows "2 ^ 52 \<le> rne (x / pow2 (ilog2 x - 52)) \<and> rne (x / pow2 (ilog2 x - 52)) \<le> 2 ^ 53"
proof -
  note s = scaled_bounds[OF assms]
  have a: "pow2 52 = of_int (2 ^ 52)" and b: "pow2 53 = of_int (2 ^ 53)"
    by (simp_all add: pow2_def)
  have "rne (of_int (2 ^ 52)) \<le> rne (x / pow2 (ilog2 x - 52))"
    using s by (intro rne_mono) (simp add: a)
  moreover have "rne (x / pow2 (ilog2 x - 52)) \<le> rne (of_int (2 ^ 53))"
    using s by (intro rne_mono) (simp add: b)
  ultimately show ?thesis by (simp only: rne_of_int)
qed

lemma binary64_pos_eq: "0 < x \<Longrightarrow> binary64 x = of_int (rne (x / pow2 (ilog2 x - 52))) * pow2 (ilog2 x - 52)"
  by (simp add: binary64_def Let_def)

lemma binary64_binade:
  assumes "0 < x"
  shows "pow2 (ilog2 x) \<le> binary64 x \<and> binary64 x \<le> pow2 (ilog2 x + 1)"
proof -
  let ?u = "pow2 (ilog2 x - 52)"
  let ?m = "rne (x / ?u)"
  note r = rne_scaled_bounds[OF assms]
  have u: "0 < ?u" by (rule pow2_pos)
  have 1: "pow2 52 * ?u = pow2 (ilog2 x)" by (simp flip: pow2_add)
  have 2: "pow2 53 * ?u = pow2 (ilog2 x + 1)"
    using pow2_add[of 53 "ilog2 x - 52"] by (simp add: add.commute)
  have "rat_of_int (2 ^ 52) \<le> of_int ?m" using r by (simp only: of_int_le_iff)
  then have "pow2 52 * ?u \<le> of_int ?m * ?u" using u by (simp add: pow2_def)
  moreover have "rat_of_int ?m \<le> of_int (2 ^ 53)" using r by (simp only: of_int_le_iff)
  then have "of_int ?m * ?u \<le> pow2 53 * ?u" using u by (simp add: pow2_def)
  ultimately show ?thesis by (simp add: binary64_pos_eq[OF assms] 1 2)
qed

lemma binary64_pos: "0 < x \<Longrightarrow> 0 < binary64 x"
  using binary64_binade[of x] pow2_pos[of "ilog2 x"] by simp

lemma binary64_neg: "x < 0 \<Longrightarrow> binary64 x < 0"
  using binary64_pos[of "- x"] by (simp add: binary64_minus)

lemma binary64_zero: "binary64 0 = 0"
  by (simp add: binary64_def)

lemma binary64_mono_pos:
  assumes "0 < x" "x \<le> y"
  shows "binary64 x \<le> binary64 y"
proof -
  have y: "0 < y" using assms by simp
  note bx = ilog2_bounds[OF assms(1)] and bh = ilog2_bounds[OF y]
  have "pow2 (ilog2 x) < pow2 (ilog2 y + 1)" using bx bh assms(2) by simp
  then have le: "ilog2 x \<le> ilog2 y" by (metis not_le pow2_mono zless_add1_eq less_le)
  show ?thesis
  proof (cases "ilog2 x = ilog2 y")
    case True
    have u: "0 < pow2 (ilog2 y - 52)" by (rule pow2_pos)
    have "x / pow2 (ilog2 y - 52) \<le> y / pow2 (ilog2 y - 52)"
      using assms(2) u by (simp add: divide_right_mono)
    then have "rne (x / pow2 (ilog2 y - 52)) \<le> rne (y / pow2 (ilog2 y - 52))"
      by (rule rne_mono)
    then have "rat_of_int (rne (x / pow2 (ilog2 y - 52))) \<le> of_int (rne (y / pow2 (ilog2 y - 52)))"
      by (simp only: of_int_le_iff)
    then show ?thesis
      using u by (simp add: binary64_pos_eq[OF assms(1)] binary64_pos_eq[OF y] True)
  next
    case False
    then have "ilog2 x + 1 \<le> ilog2 y" using le by simp
    then have "pow2 (ilog2 x + 1) \<le> pow2 (ilog2 y)" by (rule pow2_mono)
    then show ?thesis using binary64_binade[OF assms(1)] binary64_binade[OF y] by simp
  qed
qed

lemma binary64_mono:
  assumes "x \<le> y"
  shows "binary64 x \<le> binary64 y"
proof -
  consider "0 < x" | "x = 0" "y = 0" | "x = 0" "0 < y" | "x < 0" "0 \<le> y" | "x < 0" "y < 0"
    using assms by linarith
  then show ?thesis
  proof cases
    case 1
    then show ?thesis using assms by (rule binary64_mono_pos)
  next
    case 2
    then show ?thesis by simp
  next
    case 3
    then show ?thesis using binary64_pos[of y] by (simp add: binary64_zero)
  next
    case 4
    then show ?thesis using binary64_neg[of x] binary64_pos[of y] binary64_zero
      by (cases "y = 0") auto
  next
    case 5
    then have "binary64 (- y) \<le> binary64 (- x)" using assms by (intro binary64_mono_pos) auto
    then show ?thesis by (simp add: binary64_minus)
  qed
qed

lemma binary64_exact_pos:
  assumes "0 < m" "m \<le> 2 ^ 53"
  shows "binary64 (of_int m * pow2 j) = of_int m * pow2 j"
proof -
  let ?x = "rat_of_int m * pow2 j"
  let ?e = "ilog2 ?x"
  have x: "0 < ?x" using assms(1) pow2_pos[of j] by simp
  have "rat_of_int m \<le> of_int (2 ^ 53)" using assms(2) by (simp only: of_int_le_iff)
  then have "?x \<le> pow2 53 * pow2 j" using pow2_pos[of j] by (simp add: pow2_def)
  then have "pow2 ?e \<le> pow2 (53 + j)" using ilog2_bounds[OF x] by (simp add: pow2_add)
  then have e: "?e \<le> 53 + j" by (metis not_le pow2_less)
  have "\<exists>n. ?x / pow2 (?e - 52) = of_int n"
  proof (cases "?e \<le> 52 + j")
    case True
    have "?x / pow2 (?e - 52) = of_int m * pow2 (j - (?e - 52))"
      using pow2_diff[of j "?e - 52"] by (simp only: times_divide_eq_right[symmetric])
    also have "\<dots> = of_int (m * 2 ^ nat (j - (?e - 52)))"
      using True by (simp add: pow2_def)
    finally show ?thesis by blast
  next
    case False
    then have eq: "?e = 53 + j" using e by simp
    have "pow2 (53 + j) \<le> ?x" using ilog2_bounds[OF x] by (simp add: eq)
    then have "pow2 53 \<le> rat_of_int m" using pow2_pos[of j] by (simp add: pow2_add)
    then have "rat_of_int (2 ^ 53) \<le> of_int m" by (simp add: pow2_def)
    then have "2 ^ 53 \<le> m" by (simp only: of_int_le_iff)
    then have m: "m = 2 ^ 53" using assms(2) by simp
    have e52: "?e - 52 = j + 1" using eq by simp
    have "?x / pow2 (?e - 52) = ?x / pow2 (j + 1)" by (simp only: e52)
    also have "\<dots> = pow2 53 * pow2 j / pow2 (j + 1)"
      by (simp add: m pow2_def[of 53])
    also have "\<dots> = pow2 52"
      by (simp add: pow2_diff flip: pow2_add)
    also have "\<dots> = of_int (2 ^ 52)" by (simp add: pow2_def)
    finally show ?thesis by blast
  qed
  then obtain n where n: "?x / pow2 (?e - 52) = of_int n" ..
  have "binary64 ?x = of_int n * pow2 (?e - 52)"
    by (simp only: binary64_pos_eq[OF x] n rne_of_int)
  also have "\<dots> = ?x" using pow2_pos[of "?e - 52"] by (simp flip: n)
  finally show ?thesis .
qed

lemma binary64_of_nat:
  assumes "n \<le> 2 ^ 53"
  shows "binary64 (of_nat n) = of_nat n"
proof (cases "n = 0")
  case True
  then show ?thesis by (simp add: binary64_zero)
next
  case False
  have "int n \<le> 2 ^ 53" using assms by (metis of_nat_le_iff of_nat_numeral of_nat_power)
  then show ?thesis using binary64_exact_pos[of "int n" 0] False by (simp add: pow2_def)
qed

lemma binary64_one: "binary64 1 = 1"
  using binary64_of_nat[of 1] by simp

text \<open>Rounding the product of a positive integer and the largest binary64 value below 1
  stays below the integer.\<close>

lemma binary64_below_nat:
  assumes "0 < n" "n \<le> 2 ^ 53" and c: "c = 1 - 1 / 2 ^ 53"
  shows "binary64 (of_nat n * c) < of_nat n"
proof -
  let ?x = "rat_of_nat n * c"
  define e where "e = ilog2 (of_nat n)"
  have n0: "(0::rat) < of_nat n" using assms(1) by simp
  have b: "pow2 e \<le> of_nat n" "rat_of_nat n < pow2 (e + 1)"
    using ilog2_bounds[OF n0] by (simp_all add: e_def)
  have x_lt: "?x < of_nat n" using n0 by (simp add: c)
  have "pow2 0 \<le> rat_of_nat n" using assms(1) by (simp add: pow2_def)
  then have "pow2 0 < pow2 (e + 1)" using b by simp
  then have e0: "0 \<le> e" using pow2_mono[of "e + 1" 0] by fastforce
  have p2: "pow2 e = of_int (2 ^ nat e)" using e0 by (rule pow2_nat)
  show ?thesis
  proof (cases "rat_of_nat n = pow2 e")
    case True
    have "pow2 e = 2 ^ 53 * pow2 (e - 53)"
      using pow2_add[of 53 "e - 53"] by (simp add: pow2_def[of 53])
    then have "pow2 e * c = of_int (2 ^ 53 - 1) * pow2 (e - 53)"
      by (simp add: c algebra_simps)
    then have "?x = of_int (2 ^ 53 - 1) * pow2 (e - 53)" by (simp only: True)
    moreover have "binary64 (of_int (2 ^ 53 - 1) * pow2 (e - 53)) = of_int (2 ^ 53 - 1) * pow2 (e - 53)"
      by (intro binary64_exact_pos) simp_all
    ultimately have "binary64 ?x = ?x" by simp
    then show ?thesis using x_lt by simp
  next
    case False
    then have lt: "pow2 e < rat_of_nat n" using b by simp
    have "rat_of_int (2 ^ nat e) < of_int (int n)" using lt by (simp add: p2)
    then have "2 ^ nat e < int n" by (simp only: of_int_less_iff)
    then have "2 ^ nat e + 1 \<le> int n" by linarith
    then have "rat_of_int (2 ^ nat e + 1) \<le> of_int (int n)" by (simp only: of_int_le_iff)
    then have n_ge: "pow2 e + 1 \<le> of_nat n" by (simp add: p2)
    have "int n \<le> 2 ^ 53" using assms(2) by (metis of_nat_le_iff of_nat_numeral of_nat_power)
    then have "rat_of_int (int n) \<le> of_int (2 ^ 53)" by (simp only: of_int_le_iff)
    then have n53: "rat_of_nat n \<le> 2 ^ 53" by simp
    have "pow2 e < pow2 53" using lt n53 by (simp add: pow2_def[of 53])
    then have e52: "e \<le> 52" using pow2_mono[of 53 e] by fastforce
    have "rat_of_nat n / 2 ^ 53 \<le> 1" using n53 by simp
    then have x_ge: "pow2 e \<le> ?x" using n_ge by (simp add: c algebra_simps)
    have "?x < pow2 (e + 1)" using x_lt b by simp
    with x_ge have ex: "ilog2 ?x = e" by (rule ilog2_unique)
    have x0: "0 < ?x" using x_ge pow2_pos[of e] by simp
    define u where "u = pow2 (e - 52)"
    have u0: "0 < u" unfolding u_def by (rule pow2_pos)
    define N where "N = int n * 2 ^ nat (52 - e)"
    have "1 / u = pow2 (52 - e)"
      using pow2_diff[of 0 "e - 52"] by (simp add: pow2_def[of 0] u_def)
    then have "rat_of_nat n / u = of_nat n * pow2 (52 - e)"
      by (metis times_divide_eq_right mult.right_neutral)
    also have "\<dots> = of_int N" using e52 by (simp add: N_def pow2_def)
    finally have nu: "rat_of_nat n / u = of_int N" .
    have "2 ^ 53 * u = pow2 (e + 1)"
      using pow2_add[of 53 "e - 52"] by (simp add: pow2_def[of 53] add.commute u_def)
    moreover have "pow2 (e + 1) = 2 * pow2 e"
      using pow2_add[of 1 e] by (simp add: pow2_def[of 1] add.commute)
    ultimately have du: "2 ^ 53 * u = 2 * pow2 e" by simp
    have "rat_of_nat n / 2 ^ 53 / u = of_nat n / (2 ^ 53 * u)" by simp
    also have "\<dots> = of_nat n / (2 * pow2 e)" by (simp only: du)
    finally have q: "rat_of_nat n / 2 ^ 53 / u = of_nat n / (2 * pow2 e)" .
    have "1 / 2 < rat_of_nat n / (2 * pow2 e)"
      using lt pow2_pos[of e] by (simp add: field_simps)
    then have half: "1 / 2 < rat_of_nat n / 2 ^ 53 / u" by (simp only: q)
    have "?x = rat_of_nat n - of_nat n / 2 ^ 53" by (simp add: c algebra_simps)
    then have "?x / u = of_nat n / u - of_nat n / 2 ^ 53 / u"
      by (simp only: diff_divide_distrib)
    then have "?x / u < of_int N - 1 / 2" using half by (simp only: nu)
    then have "rne (?x / u) \<le> N - 1" by (rule rne_below)
    then have "rat_of_int (rne (?x / u)) \<le> of_int (N - 1)" by (simp only: of_int_le_iff)
    then have "of_int (rne (?x / u)) * u \<le> of_int (N - 1) * u"
      using u0 by (simp only: mult_right_mono less_imp_le)
    moreover have "binary64 ?x = of_int (rne (?x / u)) * u"
      using binary64_pos_eq[OF x0] by (simp only: ex u_def)
    moreover have "of_int (N - 1) * u = of_nat n - u"
      using nu u0 by (simp add: field_simps)
    ultimately have "binary64 ?x \<le> of_nat n - u" by simp
    then show ?thesis using u0 by simp
  qed
qed

section \<open>The percentile engine\<close>

lemma findIndex_none: "\<forall>x\<in>set xs. \<not> P x \<Longrightarrow> findIndex P xs = - 1"
  by (induction xs) auto

lemma findIndex_sorted:
  fixes xs :: "int list"
  assumes "sorted xs" "\<exists>x\<in>set xs. d \<le> of_int x"
  shows "findIndex (\<lambda>v. d \<le> of_int v) xs = int (length (filter (\<lambda>v. rat_of_int v < d) xs))"
  using assms
proof (induction xs)
  case Nil
  then show ?case by simp
next
  case (Cons x xs)
  show ?case
  proof (cases "d \<le> of_int x")
    case True
    have "\<forall>y\<in>set xs. \<not> rat_of_int y < d"
    proof
      fix y assume "y \<in> set xs"
      then have "x \<le> y" using Cons.prems(1) by simp
      then have "rat_of_int x \<le> of_int y" by simp
      then show "\<not> rat_of_int y < d" using True by simp
    qed
    then have "filter (\<lambda>v. rat_of_int v < d) xs = []" by (simp add: filter_empty_conv)
    then show ?thesis using True by simp
  next
    case False
    then have ex: "\<exists>y\<in>set xs. d \<le> of_int y" using Cons.prems(2) by auto
    have "sorted xs" using Cons.prems(1) by simp
    from Cons.IH[OF this ex] show ?thesis using False by (simp add: Let_def)
  qed
qed

lemma findIndex_descending:
  fixes xs :: "int list" and d :: rat
  assumes "sorted (map uminus xs)" "\<exists>x\<in>set xs. d \<le> of_int x"
  shows "findIndex (\<lambda>v. d \<le> of_int v) xs = 0"
proof (cases xs)
  case Nil
  then show ?thesis using assms(2) by simp
next
  case (Cons x ys)
  obtain y where y: "y \<in> set xs" "d \<le> rat_of_int y" using assms(2) by blast
  have "y \<le> x" using assms(1) y(1) Cons by auto
  then have "rat_of_int y \<le> of_int x" by simp
  then show ?thesis using y(2) Cons by simp
qed

lemma sort_key_Nil_iff: "sort_key f xs = [] \<longleftrightarrow> xs = []"
  by (metis length_sort length_0_conv)

lemma length_filter_sort:
  "length (filter P (sort xs)) = length (filter P xs)"
proof -
  have "mset (filter P (sort xs)) = mset (filter P xs)" by simp
  then show ?thesis by (metis size_mset)
qed

lemma sorted_nth0_Min:
  fixes ys :: "int list"
  assumes "sorted ys" "ys \<noteq> []"
  shows "ys ! 0 = Min (set ys)"
proof -
  obtain y zs where ys: "ys = y # zs" using assms(2) by (cases ys) auto
  have "Min (set ys) = y"
    using assms(1) unfolding ys by (intro Min_eqI) auto
  then show ?thesis by (simp add: ys)
qed

lemma getPercentileForDuration_count:
  assumes "\<exists>r\<in>set (runs g). d \<le> of_int (durationSeconds r)"
  shows "getPercentileForDuration g d =
           Some (Math_ceil (js_mul (js_quot
                   (of_nat (length (filter (\<lambda>r. of_int (durationSeconds r) < d) (runs g))))
                   (of_nat (length (runs g)))) 100))"
proof -
  let ?ds = "map durationSeconds (runs g)"
  have ex: "\<exists>x\<in>set (sort ?ds). d \<le> of_int x" using assms by auto
  have ne: "runs g \<noteq> []" using assms by auto
  have "findIndex (\<lambda>v. d \<le> of_int v) (sort ?ds)
          = int (length (filter (\<lambda>v. rat_of_int v < d) (sort ?ds)))"
    using ex by (intro findIndex_sorted) simp
  also have "\<dots> = int (length (filter (\<lambda>v. rat_of_int v < d) ?ds))"
    by (simp only: length_filter_sort)
  also have "\<dots> = int (length (filter (\<lambda>r. of_int (durationSeconds r) < d) (runs g)))"
    by (simp add: filter_map comp_def)
  finally show ?thesis
    using ne by (simp add: getPercentileForDuration_def js_div_def Let_def sort_key_Nil_iff)
qed

lemma getPercentileForDuration_part000_zero:
  assumes "\<exists>r\<in>set (runs g). d \<le> of_int (durationSeconds r)"
  shows "getPercentileForDuration_part000 g d = Some 0"
proof -
  let ?ds = "map durationSeconds (runs g)"
  have ex: "\<exists>x\<in>set (sort_key uminus ?ds). d \<le> of_int x" using assms by auto
  have ne: "runs g \<noteq> []" using assms by auto
  have "findIndex (\<lambda>v. d \<le> of_int v) (sort_key uminus ?ds) = 0"
    using ex by (intro findIndex_descending) simp
  then show ?thesis
    using ne by (simp add: getPercentileForDuration_part000_def js_div_def js_quot_def js_mul_def
        binary64_zero Math_ceil_def Let_def sort_key_Nil_iff)
qed

lemma binary64_of_int_small:
  assumes "\<bar>m\<bar> \<le> 2 ^ 53"
  shows "binary64 (of_int m) = of_int m"
proof -
  consider "m = 0" | "0 < m" | "m < 0" by linarith
  then show ?thesis
  proof cases
    case 1
    then show ?thesis by (simp add: binary64_zero)
  next
    case 2
    then show ?thesis using binary64_exact_pos[of m 0] assms by (simp add: pow2_def)
  next
    case 3
    then have "binary64 (of_int (- m)) = of_int (- m)"
      using binary64_exact_pos[of "- m" 0] assms by (simp add: pow2_def)
    then show ?thesis by (simp add: binary64_minus)
  qed
qed

text \<open>A binary64 value below 100 is at most \<open>100 - 2^-46\<close>, and its hundredth rounds to
  at most \<open>1 - 2^-53\<close>.\<close>

lemma binary64_below_100:
  assumes "binary64 p = p" "p < 100"
  shows "p \<le> 100 - 1 / 2 ^ 46"
proof (cases "p < 64")
  case True
  have "(64::rat) \<le> 100 - 1 / 2 ^ 46" by simp
  then show ?thesis using True by linarith
next
  case False
  then have lo: "pow2 6 \<le> p" by (simp add: pow2_def)
  have hi: "p < pow2 (6 + 1)" using assms(2) by (simp add: pow2_def)
  have e: "ilog2 p = 6" using lo hi by (rule ilog2_unique)
  have p0: "0 < p" using False by simp
  define m where "m = rne (p / pow2 (- 46))"
  have "binary64 p = of_int m * pow2 (- 46)"
    using binary64_pos_eq[OF p0] by (simp add: e m_def)
  then have p: "p = of_int m / 2 ^ 46" using assms(1) by (simp add: pow2_def)
  have "rat_of_int m < 100 * 2 ^ 46" using assms(2) by (simp add: p divide_less_eq)
  then have "rat_of_int m < of_int (100 * 2 ^ 46)" by simp
  then have "m < 100 * 2 ^ 46" by (simp only: of_int_less_iff)
  then have "m \<le> 100 * 2 ^ 46 - 1" by simp
  then have "rat_of_int m \<le> of_int (100 * 2 ^ 46 - 1)" by (simp only: of_int_le_iff)
  then have "rat_of_int m / 2 ^ 46 \<le> of_int (100 * 2 ^ 46 - 1) / 2 ^ 46"
    by (simp only: divide_right_mono zero_le_numeral zero_le_power)
  also have "\<dots> = 100 - 1 / 2 ^ 46" by simp
  finally show ?thesis by (simp only: p)
qed

lemma binary64_largest_quotient:
  "binary64 ((100 - 1 / 2 ^ 46) / 100) = 1 - 1 / 2 ^ 53"
  by code_simp

lemma percentile_index_below_100:
  fixes p :: rat
  assumes "0 \<le> p" "p \<le> 100 - 1 / 2 ^ 46" "0 < n" "n \<le> 2 ^ 53"
  shows "0 \<le> Math_floor (js_mul (js_quot p 100) (of_nat n))
       \<and> Math_floor (js_mul (js_quot p 100) (of_nat n)) < int n"
proof -
  let ?q = "js_quot p 100"
  let ?x = "js_mul ?q (of_nat n)"
  define c :: rat where "c = 1 - 1 / 2 ^ 53"
  have "binary64 0 \<le> binary64 (p / 100)" using assms(1) by (intro binary64_mono) simp
  then have q0: "0 \<le> ?q" by (simp add: js_quot_def binary64_zero)
  have "p / 100 \<le> (100 - 1 / 2 ^ 46) / 100" using assms(2) by (simp only: divide_right_mono zero_le_numeral)
  then have "binary64 (p / 100) \<le> binary64 ((100 - 1 / 2 ^ 46) / 100)" by (rule binary64_mono)
  then have q1: "?q \<le> c" by (simp only: js_quot_def binary64_largest_quotient c_def)
  have n0: "(0::rat) \<le> of_nat n" by simp
  have "binary64 0 \<le> binary64 (?q * of_nat n)" using q0 by (intro binary64_mono) simp
  then have x0: "0 \<le> ?x" by (simp add: js_mul_def binary64_zero)
  have "?q * of_nat n \<le> c * of_nat n" using q1 n0 by (rule mult_right_mono)
  then have "?q * of_nat n \<le> of_nat n * c" by (simp only: mult.commute)
  then have "binary64 (?q * of_nat n) \<le> binary64 (of_nat n * c)" by (rule binary64_mono)
  also have "\<dots> < of_nat n" using assms(3,4) c_def by (rule binary64_below_nat)
  finally have x1: "?x < of_int (int n)" by (simp add: js_mul_def)
  have "\<lfloor>?x\<rfloor> < int n" using x1 by (simp only: floor_less_iff)
  moreover have "0 \<le> \<lfloor>?x\<rfloor>" using x0 by simp
  ultimately show ?thesis by (simp add: Math_floor_def)
qed

lemma percentile_index_0: "Math_floor (js_mul (js_quot 0 100) (of_nat n)) = 0"
  by (simp add: Math_floor_def js_mul_def js_quot_def binary64_zero)

lemma percentile_index_100:
  assumes "n \<le> 2 ^ 53"
  shows "Math_floor (js_mul (js_quot 100 100) (of_nat n)) = int n"
  using binary64_of_nat[OF assms] by (simp add: Math_floor_def js_mul_def js_quot_def binary64_one)

lemma getNthPercentileDuration_eq:
  "getNthPercentileDuration g p =
     array_get (sort (map durationSeconds (runs g)))
       (Math_floor (js_mul (js_quot p 100) (of_nat (length (runs g)))))"
  by (simp add: getNthPercentileDuration_def Let_def)

text \<open>
  Claim C1, as the code has it. For a non-empty group of at most \<open>2^53\<close> runs,
  \<^verbatim>\<open>getNthPercentileDuration(p)\<close> of src/index.ts sorts the durations ascending and reads
  the element at index \<open>floor(p / 100 * n)\<close>, computed in binary64, with no clamping. For
  every percentile \<open>0 \<le> p < 100\<close> (a JavaScript number, so a binary64 value: at most
  \<open>100 - 2^-46\<close>) that index lies in \<open>[0, n - 1]\<close> and the element there is returned; at
  \<open>p = 0\<close> this is the minimum duration. At \<open>p = 100\<close> the index is \<open>n\<close>, outside the
  array, and the result is \<^verbatim>\<open>undefined\<close>, not the maximum. The second file does not
  clamp either.
\<close>

theorem getNthPercentileDuration_unclamped:
  assumes "runs g \<noteq> []" and "length (runs g) \<le> 2 ^ 53"
  shows "(\<forall>p. 0 \<le> p \<and> p < 100 \<and> binary64 p = p \<longrightarrow>
            (\<exists>i < length (runs g).
               Math_floor (js_mul (js_quot p 100) (of_nat (length (runs g)))) = int i
               \<and> getNthPercentileDuration g p = Some (sort (map durationSeconds (runs g)) ! i)))
       \<and> (\<forall>p. 0 \<le> p \<and> p \<le> 100 - 1 / 2 ^ 46 \<longrightarrow>
            (\<exists>i < length (runs g).
               Math_floor (js_mul (js_quot p 100) (of_nat (length (runs g)))) = int i
               \<and> getNthPercentileDuration g p = Some (sort (map durationSeconds (runs g)) ! i)))
       \<and> getNthPercentileDuration g 0 = Some (Min (durationSeconds ` set (runs g)))
       \<and> getNthPercentileDuration g 100 = None
       \<and> getNthPercentileDuration_part000 g 100 = None"
proof -
  let ?n = "length (runs g)"
  let ?ds = "sort (map durationSeconds (runs g))"
  have n: "0 < ?n" using assms(1) by simp
  have below: "\<exists>i < ?n. Math_floor (js_mul (js_quot p 100) (of_nat ?n)) = int i
                  \<and> getNthPercentileDuration g p = Some (?ds ! i)"
    if p: "0 \<le> p" "p \<le> 100 - 1 / 2 ^ 46" for p
  proof -
    let ?i = "Math_floor (js_mul (js_quot p 100) (of_nat ?n))"
    have r: "0 \<le> ?i \<and> ?i < int ?n"
      using p n assms(2) by (rule percentile_index_below_100)
    then have "nat ?i < ?n" and "?i = int (nat ?i)" by linarith+
    moreover have "getNthPercentileDuration g p = Some (?ds ! nat ?i)"
      using r by (simp add: getNthPercentileDuration_eq array_get_def)
    ultimately show ?thesis by blast
  qed
  have 1: "\<forall>p. 0 \<le> p \<and> p < 100 \<and> binary64 p = p \<longrightarrow>
            (\<exists>i < ?n. Math_floor (js_mul (js_quot p 100) (of_nat ?n)) = int i
               \<and> getNthPercentileDuration g p = Some (?ds ! i))"
    using below binary64_below_100 by blast
  have 2: "\<forall>p. 0 \<le> p \<and> p \<le> 100 - 1 / 2 ^ 46 \<longrightarrow>
            (\<exists>i < ?n. Math_floor (js_mul (js_quot p 100) (of_nat ?n)) = int i
               \<and> getNthPercentileDuration g p = Some (?ds ! i))"
    using below by blast
  have "?ds \<noteq> []" using assms(1) by (simp add: sort_key_Nil_iff)
  then have "?ds ! 0 = Min (set ?ds)" by (intro sorted_nth0_Min) simp_all
  then have 3: "getNthPercentileDuration g 0 = Some (Min (durationSeconds ` set (runs g)))"
    using assms(1) by (simp add: getNthPercentileDuration_eq percentile_index_0 array_get_def)
  have 4: "getNthPercentileDuration g 100 = None"
    by (simp add: getNthPercentileDuration_eq percentile_index_100[OF assms(2)] array_get_def)
  have 5: "getNthPercentileDuration_part000 g 100 = None"
    by (simp add: getNthPercentileDuration_part000_def Let_def percentile_index_100[OF assms(2)]
        array_get_def)
  from 1 2 3 4 5 show ?thesis by (intro conjI)
qed

lemma not_found_value:
  assumes "0 < n"
  shows "- 100 \<le> Math_ceil (js_mul (js_quot (- 1) (of_nat n)) 100)
       \<and> Math_ceil (js_mul (js_quot (- 1) (of_nat n)) 100) \<le> 0"
proof -
  let ?q = "js_quot (- 1) (of_nat n)"
  have n1: "(1::rat) \<le> of_nat n" using assms by simp
  have "- 1 / rat_of_nat n < 0" using assms by simp
  then have q0: "?q < 0" unfolding js_quot_def by (rule binary64_neg)
  have "- 1 \<le> - 1 / rat_of_nat n" using n1 by (simp add: field_simps)
  then have "binary64 (- 1) \<le> binary64 (- 1 / rat_of_nat n)" by (rule binary64_mono)
  then have q1: "- 1 \<le> ?q" by (simp add: js_quot_def binary64_minus binary64_one)
  have "?q * 100 < 0" using q0 by simp
  then have x0: "js_mul ?q 100 < 0" unfolding js_mul_def by (rule binary64_neg)
  have e100: "binary64 (- 100) = - 100"
    using binary64_of_int_small[of "- 100"] by simp
  have "- 100 \<le> ?q * 100" using q1 by simp
  then have "binary64 (- 100) \<le> binary64 (?q * 100)" by (rule binary64_mono)
  then have x1: "- 100 \<le> js_mul ?q 100" by (simp add: js_mul_def e100)
  have "\<lceil>js_mul ?q 100\<rceil> \<le> 0" using x0 by (simp add: ceiling_le_iff)
  moreover have "- 100 \<le> \<lceil>js_mul ?q 100\<rceil>" using x1 by (simp add: le_ceiling_iff)
  ultimately show ?thesis by (simp add: Math_ceil_def)
qed

text \<open>
  Claim C10. For a non-empty group and a threshold \<open>d\<close> above every member duration,
  \<^verbatim>\<open>findIndex\<close> yields \<open>-1\<close> and \<^verbatim>\<open>getPercentileForDuration(d)\<close> returns
  \<open>ceil(-1 / n * 100)\<close>, a number between \<open>-100\<close> and 0: not 100, not an out-of-range
  read, not an error. Both source files do so.
\<close>

theorem getPercentileForDuration_not_found:
  assumes "runs g \<noteq> []" and "\<forall>r\<in>set (runs g). of_int (durationSeconds r) < d"
  shows "getPercentileForDuration g d =
           Some (Math_ceil (js_mul (js_quot (- 1) (of_nat (length (runs g)))) 100))
       \<and> getPercentileForDuration_part000 g d =
           Some (Math_ceil (js_mul (js_quot (- 1) (of_nat (length (runs g)))) 100))
       \<and> - 100 \<le> Math_ceil (js_mul (js_quot (- 1) (of_nat (length (runs g)))) 100)
       \<and> Math_ceil (js_mul (js_quot (- 1) (of_nat (length (runs g)))) 100) \<le> 0"
proof -
  let ?ds = "map durationSeconds (runs g)"
  have "\<forall>x\<in>set (sort ?ds). \<not> d \<le> of_int x" using assms(2) by auto
  then have a: "findIndex (\<lambda>v. d \<le> of_int v) (sort ?ds) = - 1" by (rule findIndex_none)
  have "\<forall>x\<in>set (sort_key uminus ?ds). \<not> d \<le> of_int x" using assms(2) by auto
  then have b: "findIndex (\<lambda>v. d \<le> of_int v) (sort_key uminus ?ds) = - 1" by (rule findIndex_none)
  have n: "0 < length (runs g)" using assms(1) by simp
  show ?thesis
    using assms(1) not_found_value[OF n]
    by (simp add: getPercentileForDuration_def getPercentileForDuration_part000_def Let_def
        a b js_div_def sort_key_Nil_iff)
qed

text \<open>
  The scenarios of the specification. Scenario A on src/index.ts: the 50th percentile is
  60, the 0th is 10, the 99th is 100. Scenario C: 80 successes and 20 failures give a
  success rate of 80.
\<close>

lemma scenario_A_percentiles:
  "getNthPercentileDuration scenario_A 50 = Some 60
   \<and> getNthPercentileDuration scenario_A 0 = Some 10
   \<and> getNthPercentileDuration scenario_A 99 = Some 100"
  by code_simp

lemma scenario_C_success_rate:
  "successRate \<lparr>runs = replicate 80 (run_of ''success'' 1)\<rparr>
               \<lparr>runs = replicate 20 (run_of ''failure'' 1)\<rparr> = Some 80"
  by code_simp

text \<open>
  The quotients and products are binary64 operations, and the formulas of the claims are
  read the same way. Their values can differ from exact arithmetic: 29 percent of 100
  elements is index 28, and 7 parts of 100 are rounded up to 8 percent.
\<close>

lemma binary64_percentages:
  "Math_floor (js_mul (js_quot 29 100) 100) = 28
   \<and> Math_ceil (js_mul (js_quot 7 100) 100) = 8"
  by code_simp

text \<open>
  Against claim C1 as stated: on Scenario A the 100th percentile is not the maximum
  duration (100) but \<^verbatim>\<open>undefined\<close>, since index 10 is read from an array of 10 elements.
\<close>

theorem getNthPercentileDuration_100_counterexample:
  "getNthPercentileDuration scenario_A 100 = None"
  by code_simp

theorem getNthPercentileDuration_unclamped_witness:
  "runs scenario_A \<noteq> [] \<and> length (runs scenario_A) \<le> 2 ^ 53
   \<and> (0::rat) \<le> 199 / 2 \<and> (199 / 2 :: rat) < 100 \<and> binary64 (199 / 2) = 199 / 2
   \<and> (\<exists>i < length (runs scenario_A).
          Math_floor (js_mul (js_quot (199 / 2) 100) (of_nat (length (runs scenario_A)))) = int i
          \<and> getNthPercentileDuration scenario_A (199 / 2)
              = Some (sort (map durationSeconds (runs scenario_A)) ! i))
   \<and> getNthPercentileDuration scenario_A (199 / 2) = Some 100
   \<and> (\<exists>i < length (runs scenario_A).
          Math_floor (js_mul (js_quot 50 100) (of_nat (length (runs scenario_A)))) = int i
          \<and> getNthPercentileDuration scenario_A 50
              = Some (sort (map durationSeconds (runs scenario_A)) ! i))
   \<and> getNthPercentileDuration scenario_A 0 = Some (Min (durationSeconds ` set (runs scenario_A)))
   \<and> getNthPercentileDuration scenario_A 100 = None
   \<and> getNthPercentileDuration_part000 scenario_A 100 = None"
proof -
  have h1: "runs scenario_A \<noteq> []" by (simp add: scenario_A_def group_of_def)
  have h2: "length (runs scenario_A) \<le> 2 ^ 53" by (simp add: scenario_A_def group_of_def)
  have h3: "(0::rat) \<le> 199 / 2 \<and> (199 / 2 :: rat) < 100" by simp
  have h4: "binary64 (199 / 2) = 199 / 2" by code_simp
  have h5: "(0::rat) \<le> 50 \<and> (50::rat) \<le> 100 - 1 / 2 ^ 46" by simp
  have v: "getNthPercentileDuration scenario_A (199 / 2) = Some 100" by code_simp
  note t = getNthPercentileDuration_unclamped[OF h1 h2]
  from t h3 h4 have a: "\<exists>i < length (runs scenario_A).
          Math_floor (js_mul (js_quot (199 / 2) 100) (of_nat (length (runs scenario_A)))) = int i
          \<and> getNthPercentileDuration scenario_A (199 / 2)
              = Some (sort (map durationSeconds (runs scenario_A)) ! i)"
    by blast
  from t h5 have b: "\<exists>i < length (runs scenario_A).
          Math_floor (js_mul (js_quot 50 100) (of_nat (length (runs scenario_A)))) = int i
          \<and> getNthPercentileDuration scenario_A 50
              = Some (sort (map durationSeconds (runs scenario_A)) ! i)"
    by blast
  from t have c: "getNthPercentileDuration scenario_A 0
                    = Some (Min (durationSeconds ` set (runs scenario_A)))"
    and d: "getNthPercentileDuration scenario_A 100 = None"
    and e: "getNthPercentileDuration_part000 scenario_A 100 = None"
    by blast+
  from h1 h2 h3 h4 a v b c d e show ?thesis by (intro conjI) simp_all
qed

text \<open>
  Claim C2: the two percentile engines return the same values. They do not: on
  Scenario A, src/index.ts gives 100 seconds as the 99th percentile and the second file
  gives 10; for the threshold of 60 seconds src/index.ts gives the 50th percentile and the
  second file gives 0. The second file sorts descending.
\<close>

theorem percentile_engines_differ:
  "getNthPercentileDuration scenario_A 99 = Some 100
   \<and> getNthPercentileDuration_part000 scenario_A 99 = Some 10
   \<and> getPercentileForDuration scenario_A 60 = Some 50
   \<and> getPercentileForDuration_part000 scenario_A 60 = Some 0"
  by code_simp

text \<open>
  Claim C3: \<^verbatim>\<open>getPercentileForDuration(d)\<close> is \<open>ceil(k / n * 100)\<close>, with \<open>k\<close> the number of
  durations strictly below \<open>d\<close>. src/index.ts computes it
  (\<open>getPercentileForDuration_count\<close>); the second file, sorting descending, returns 0
  whenever some duration reaches \<open>d\<close> (\<open>getPercentileForDuration_part000_zero\<close>). On
  durations 1, 2, 3 and \<open>d = 2\<close>: \<open>k = 1\<close>, the claimed value is 34, the second file
  returns 0.
\<close>

theorem getPercentileForDuration_part000_descending:
  "getPercentileForDuration_part000 (group_of [1, 2, 3]) 2 = Some 0
   \<and> length (filter (\<lambda>r. rat_of_int (durationSeconds r) < 2) (runs (group_of [1, 2, 3]))) = 1
   \<and> Math_ceil (js_mul (js_quot 1 3) 100) = 34"
  by code_simp

theorem getPercentileForDuration_not_found_witness:
  "runs (group_of [1, 2, 3]) \<noteq> []
   \<and> getPercentileForDuration (group_of [1, 2, 3]) 4 = Some (- 33)
   \<and> getPercentileForDuration_part000 (group_of [1, 2, 3]) 4 = Some (- 33)"
proof -
  have h1: "runs (group_of [1, 2, 3]) \<noteq> []" by (simp add: group_of_def)
  have h2: "\<forall>r\<in>set (runs (group_of [1, 2, 3])). rat_of_int (durationSeconds r) < 4"
    by (simp add: group_of_def run_of_def)
  have v: "Math_ceil (js_mul (js_quot (- 1) (of_nat (length (runs (group_of [1, 2, 3]))))) 100) = - 33"
    by code_simp
  show ?thesis using getPercentileForDuration_not_found[OF h1 h2] h1 h2 by (simp only: v) simp
qed


section \<open>The aggregator\<close>

lemma map_of_tabulate:
  "map_of (map (\<lambda>k. (k, f k)) ks) k = (if k \<in> set ks then Some (f k) else None)"
  by (induction ks) auto

lemma update_tabulate_present:
  "k \<in> set ks \<Longrightarrow> distinct ks \<Longrightarrow>
   AList.update k v (map (\<lambda>k'. (k', f k')) ks) = map (\<lambda>k'. (k', if k' = k then v else f k')) ks"
proof (induction ks)
  case Nil
  then show ?case by simp
next
  case (Cons a ks)
  show ?case
  proof (cases "a = k")
    case True
    then have "k \<notin> set ks" using Cons.prems(2) by simp
    then have "map (\<lambda>k'. (k', f k')) ks = map (\<lambda>k'. (k', if k' = k then v else f k')) ks"
      by (intro map_cong) auto
    then show ?thesis using True by simp
  next
    case False
    then have "k \<in> set ks" and "distinct ks" using Cons.prems by simp_all
    from Cons.IH[OF this] show ?thesis using False by simp
  qed
qed

lemma update_tabulate_absent:
  "k \<notin> set ks \<Longrightarrow>
   AList.update k v (map (\<lambda>k'. (k', f k')) ks) = map (\<lambda>k'. (k', f k')) ks @ [(k, v)]"
  by (induction ks) auto

lemma update_snoc:
  "k \<notin> fst ` set al \<Longrightarrow> AList.update k v (al @ [(k, w)]) = al @ [(k, v)]"
  by (induction al) auto

lemma groupRuns_snoc: "groupRuns (rs @ [r]) = groupRuns_step (groupRuns rs) r"
  by (simp add: groupRuns_def)

lemma groupRuns_step_eq_partition: "groupRuns_step (partition_by_status rs) r = partition_by_status (rs @ [r])"
proof (cases "status r \<in> status ` set rs")
  case True
  let ?ks = "rev (remdups (rev (map status rs)))"
  have in_ks: "status r \<in> set ?ks" using True by simp
  have ks: "rev (remdups (rev (map status (rs @ [r])))) = ?ks" using True by simp
  have "groupRuns_step (partition_by_status rs) r =
          AList.update (status r) \<lparr>runs = filter (\<lambda>x. status x = status r) rs @ [r]\<rparr> (partition_by_status rs)"
    using in_ks by (simp add: groupRuns_step_def partition_by_status_def map_of_tabulate Let_def)
  also have "\<dots> = map (\<lambda>k'. (k', if k' = status r
                                    then \<lparr>runs = filter (\<lambda>x. status x = status r) rs @ [r]\<rparr>
                                    else \<lparr>runs = filter (\<lambda>x. status x = k') rs\<rparr>)) ?ks"
    unfolding partition_by_status_def by (rule update_tabulate_present[OF in_ks]) simp
  also have "\<dots> = partition_by_status (rs @ [r])"
    unfolding partition_by_status_def ks by (intro map_cong) auto
  finally show ?thesis .
next
  case False
  let ?ks = "rev (remdups (rev (map status rs)))"
  have not_in: "status r \<notin> set ?ks" using False by simp
  have ks: "rev (remdups (rev (map status (rs @ [r])))) = ?ks @ [status r]" using False by simp
  have none: "filter (\<lambda>x. status x = status r) rs = []"
  proof -
    have "\<forall>x\<in>set rs. status x \<noteq> status r" using False by (metis imageI)
    then show ?thesis by (simp add: filter_empty_conv)
  qed
  let ?m1 = "partition_by_status rs @ [(status r, \<lparr>runs = []\<rparr>)]"
  have m1: "AList.update (status r) \<lparr>runs = []\<rparr> (partition_by_status rs) = ?m1"
    unfolding partition_by_status_def by (rule update_tabulate_absent[OF not_in])
  have get: "map_of ?m1 (status r) = Some \<lparr>runs = []\<rparr>"
    using not_in by (simp add: partition_by_status_def map_of_tabulate map_add_def)
  have upd: "AList.update (status r) v ?m1 = partition_by_status rs @ [(status r, v)]" for v
    using not_in by (intro update_snoc) (simp add: partition_by_status_def image_image)
  have mo: "map_of (partition_by_status rs) (status r) = None"
    using not_in by (simp add: partition_by_status_def map_of_tabulate)
  have "groupRuns_step (partition_by_status rs) r =
          (case map_of ?m1 (status r) of
             None \<Rightarrow> ?m1
           | Some grp \<Rightarrow> AList.update (status r) (grp\<lparr>runs := runs grp @ [r]\<rparr>) ?m1)"
    by (simp only: groupRuns_step_def Let_def mo m1 refl if_True)
  also have "\<dots> = AList.update (status r) (\<lparr>runs = []\<rparr>\<lparr>runs := runs \<lparr>runs = []\<rparr> @ [r]\<rparr>) ?m1"
    by (simp only: get option.case)
  also have "\<dots> = partition_by_status rs @ [(status r, \<lparr>runs = [r]\<rparr>)]"
    by (simp add: upd)
  also have "\<dots> = partition_by_status (rs @ [r])"
    unfolding partition_by_status_def ks using not_in none by (auto intro!: map_cong)
  finally show ?thesis .
qed

lemma groupRuns_eq_partition_by_status: "groupRuns rs = partition_by_status rs"
proof (induction rs rule: rev_induct)
  case Nil
  then show ?case by (simp add: groupRuns_def partition_by_status_def)
next
  case (snoc r rs)
  then show ?case by (simp only: groupRuns_snoc groupRuns_step_eq_partition)
qed

lemma partition_by_status_keys: "map fst (partition_by_status rs) = rev (remdups (rev (map status rs)))"
  by (simp add: partition_by_status_def comp_def)

lemma sum_filter_mset_keys:
  "distinct ks \<Longrightarrow>
   (\<Sum>k\<leftarrow>ks. filter_mset (\<lambda>r. f r = k) M) = filter_mset (\<lambda>r. f r \<in> set ks) M"
proof (induction ks)
  case Nil
  then show ?case by simp
next
  case (Cons a ks)
  then have a: "a \<notin> set ks" and d: "distinct ks" by simp_all
  have "filter_mset (\<lambda>r. f r \<in> set (a # ks)) M
          = filter_mset (\<lambda>r. f r = a) M + filter_mset (\<lambda>r. f r \<in> set ks) M"
    using a by (intro multiset_eqI) auto
  then show ?case using Cons.IH[OF d] by simp
qed

lemma mset_concat_partition: "mset (concat (map (runs \<circ> snd) (partition_by_status rs))) = mset rs"
proof -
  let ?ks = "rev (remdups (rev (map status rs)))"
  have "mset (concat (map (runs \<circ> snd) (partition_by_status rs)))
          = (\<Sum>k\<leftarrow>?ks. filter_mset (\<lambda>r. status r = k) (mset rs))"
    by (simp add: partition_by_status_def mset_concat comp_def)
  also have "\<dots> = filter_mset (\<lambda>r. status r \<in> set ?ks) (mset rs)"
    by (intro sum_filter_mset_keys) simp
  also have "\<dots> = mset rs"
    by (intro filter_mset_eq_conv[THEN iffD2]) auto
  finally show ?thesis .
qed

lemma foldl_total:
  "foldl (\<lambda>t grp. t + length (runs grp)) a gs = a + length (concat (map runs gs))"
  by (induction gs arbitrary: a) auto

lemma totalRuns_concat: "totalRuns m = length (concat (map (runs \<circ> snd) m))"
  by (simp add: totalRuns_def foldl_total)

text \<open>
  Claim C6. The aggregator produces a partition of the normalized runs: the keys are
  distinct and are exactly the statuses that occur, the group of a key holds exactly the
  runs of that status (so it is never empty), every run is in the groups as often as in
  the input, and the group sizes add up to the number of runs.
\<close>

theorem groupRuns_partition:
  "distinct (map fst (groupRuns rs))
   \<and> fst ` set (groupRuns rs) = status ` set rs
   \<and> (\<forall>(k, g) \<in> set (groupRuns rs). runs g = filter (\<lambda>r. status r = k) rs \<and> runs g \<noteq> [])
   \<and> mset (concat (map (runs \<circ> snd) (groupRuns rs))) = mset rs
   \<and> totalRuns (groupRuns rs) = length rs"
proof (intro conjI)
  show "distinct (map fst (groupRuns rs))"
    by (simp add: groupRuns_eq_partition_by_status partition_by_status_keys)
  have "set (map fst (groupRuns rs)) = status ` set rs"
    by (simp only: groupRuns_eq_partition_by_status partition_by_status_keys) simp
  then show keys: "fst ` set (groupRuns rs) = status ` set rs" by simp
  show "\<forall>(k, g) \<in> set (groupRuns rs). runs g = filter (\<lambda>r. status r = k) rs \<and> runs g \<noteq> []"
  proof (clarify, intro conjI)
    fix k g assume kg: "(k, g) \<in> set (groupRuns rs)"
    then show g: "runs g = filter (\<lambda>r. status r = k) rs"
      by (auto simp: groupRuns_eq_partition_by_status partition_by_status_def)
    have "k \<in> status ` set rs" using kg keys by force
    then obtain r where "r \<in> set rs" "status r = k" by auto
    then have "r \<in> set (filter (\<lambda>r. status r = k) rs)" by simp
    then show "runs g \<noteq> []" unfolding g by (metis empty_iff list.set(1))
  qed
  show m: "mset (concat (map (runs \<circ> snd) (groupRuns rs))) = mset rs"
    by (simp only: groupRuns_eq_partition_by_status mset_concat_partition)
  show "totalRuns (groupRuns rs) = length rs"
    using m by (metis totalRuns_concat size_mset)
qed

theorem groupRuns_partition_witness:
  "(''success'', \<lparr>runs = [run_of ''success'' 7, run_of ''success'' 3]\<rparr>) \<in> set (groupRuns example_runs)
   \<and> runs \<lparr>runs = [run_of ''success'' 7, run_of ''success'' 3]\<rparr>
       = filter (\<lambda>r. status r = ''success'') example_runs
   \<and> totalRuns (groupRuns example_runs) = 3"
proof -
  have mem: "(''success'', \<lparr>runs = [run_of ''success'' 7, run_of ''success'' 3]\<rparr>)
               \<in> set (groupRuns example_runs)"
    by code_simp
  have len: "length example_runs = 3" by (simp add: example_runs_def)
  show ?thesis using groupRuns_partition[of example_runs] mem len by auto
qed

section \<open>The normalizer\<close>

lemma binary64_exact:
  assumes "\<bar>m\<bar> \<le> 2 ^ 53"
  shows "binary64 (of_int m * pow2 j) = of_int m * pow2 j"
proof -
  consider "m = 0" | "0 < m" | "m < 0" by linarith
  then show ?thesis
  proof cases
    case 1
    then show ?thesis by (simp add: binary64_zero)
  next
    case 2
    then show ?thesis using binary64_exact_pos[of m j] assms by simp
  next
    case 3
    then have "binary64 (of_int (- m) * pow2 j) = of_int (- m) * pow2 j"
      using assms by (intro binary64_exact_pos) simp_all
    then show ?thesis using binary64_minus[of "of_int m * pow2 j"] by simp
  qed
qed

lemma binary64_nonneg_iff: "0 \<le> binary64 x \<longleftrightarrow> 0 \<le> x"
  using binary64_pos[of x] binary64_neg[of x] binary64_zero
  by (cases "x = 0") (auto simp: not_le[symmetric] simp del: not_le)

lemma floor_binary64_div_1000:
  assumes "\<bar>d\<bar> \<le> 2 ^ 52"
  shows "\<lfloor>binary64 (of_int d / 1000)\<rfloor> = d div 1000"
proof -
  define k where "k = d div 1000"
  define r where "r = d mod 1000"
  have d: "d = 1000 * k + r" and r: "0 \<le> r" "r \<le> 999" by (simp_all add: k_def r_def)
  have dn: "- 4503599627370496 \<le> d" "d \<le> 4503599627370496" using assms by simp_all
  have kb: "- 4503599627371 \<le> k" "k \<le> 4503599627371" using d r dn by linarith+
  have k1: "\<bar>k\<bar> \<le> 2 ^ 53" using kb by simp
  have k2: "\<bar>1024 * k + 1023\<bar> \<le> 2 ^ 53" using kb by simp
  have dq: "rat_of_int d / 1000 = of_int k + of_int r / 1000"
    by (simp add: d)
  have lo: "rat_of_int k \<le> of_int d / 1000" using r(1) by (simp add: dq)
  have "rat_of_int r \<le> 999" using r(2) by simp
  then have "rat_of_int r / 1000 \<le> 1023 / 1024" by simp
  then have hi: "rat_of_int d / 1000 \<le> of_int k + 1023 / 1024" by (simp add: dq)
  have e: "rat_of_int (1024 * k + 1023) * pow2 (- 10) = of_int k + 1023 / 1024"
    by (simp add: pow2_def add_divide_distrib)
  have "binary64 (of_int k) \<le> binary64 (of_int d / 1000)" using lo by (rule binary64_mono)
  moreover have "binary64 (of_int k) = of_int k" using k1 by (rule binary64_of_int_small)
  ultimately have 1: "of_int k \<le> binary64 (of_int d / 1000)" by simp
  have "binary64 (of_int d / 1000) \<le> binary64 (of_int k + 1023 / 1024)"
    using hi by (rule binary64_mono)
  moreover have "binary64 (of_int k + 1023 / 1024) = of_int k + 1023 / 1024"
    using binary64_exact[OF k2, of "- 10"] by (simp only: e)
  ultimately have "binary64 (of_int d / 1000) \<le> of_int k + 1023 / 1024" by simp
  also have "\<dots> < of_int k + 1" by simp
  finally have 2: "binary64 (of_int d / 1000) < of_int k + 1" .
  show ?thesis using 1 2 by (simp add: floor_eq_iff k_def)
qed

lemma normalizeRun_Some:
  assumes "normalizeRun getTime e = Some r"
  shows "retained e" and "status r = effective_status e"
    and "durationSeconds r =
           Math_floor (js_quot (js_sub (of_int (getTime (response_updated_at e)))
                                       (of_int (getTime (response_created_at e)))) 1000)"
  using assms
  by (auto simp: normalizeRun_def retained_def effective_status_def Let_def split: if_splits)

lemma normalizeRun_retained:
  assumes "retained e"
  shows "\<exists>r. normalizeRun getTime e = Some r"
  using assms by (simp add: normalizeRun_def retained_def Let_def)

lemma collectRuns_fetched:
  "collectRuns getTime pages = List.map_filter (normalizeRun getTime) (fetched_entries pages)"
  by (induction pages rule: fetched_entries.induct) (simp_all add: List.map_filter_def)

lemma collectRuns_statuses:
  "status ` set (collectRuns getTime pages)
     = effective_status ` {e \<in> set (fetched_entries pages). retained e}"
proof (intro set_eqI iffI)
  fix k assume "k \<in> status ` set (collectRuns getTime pages)"
  then obtain r where r: "r \<in> set (collectRuns getTime pages)" "k = status r" by blast
  then obtain e where e: "e \<in> set (fetched_entries pages)" "normalizeRun getTime e = Some r"
    by (auto simp: collectRuns_fetched List.map_filter_def)
  show "k \<in> effective_status ` {e \<in> set (fetched_entries pages). retained e}"
    using e r(2) normalizeRun_Some(1,2)[OF e(2)] by auto
next
  fix k assume "k \<in> effective_status ` {e \<in> set (fetched_entries pages). retained e}"
  then obtain e where e: "e \<in> set (fetched_entries pages)" "retained e" "k = effective_status e"
    by blast
  obtain r where r: "normalizeRun getTime e = Some r" using normalizeRun_retained[OF e(2)] by blast
  have "r \<in> set (collectRuns getTime pages)"
    using e(1) r by (force simp: collectRuns_fetched List.map_filter_def)
  then show "k \<in> status ` set (collectRuns getTime pages)"
    using normalizeRun_Some(2)[OF r] e(3) by force
qed

lemma keys_of_getWorkflowRuns:
  "fst ` set (getWorkflowRuns getTime pages) = status ` set (collectRuns getTime pages)"
proof -
  have "set (map fst (partition_by_status (collectRuns getTime pages)))
          = status ` set (collectRuns getTime pages)"
    by (simp only: partition_by_status_keys) simp
  then show ?thesis by (simp add: getWorkflowRuns_def groupRuns_eq_partition_by_status)
qed

text \<open>
  Claim C7, as the code has it. The keys of the grouped runs are exactly the effective
  statuses of the retained entries: an entry with an undefined conclusion or with one of
  the five unfinished statuses is discarded, and a retained entry is keyed by its
  conclusion when that is not \<^verbatim>\<open>null\<close>. The filter reads the reported status only, so
  the unfinished statuses are absent from the keys provided no fetched entry carries one
  of them as its conclusion.
\<close>

theorem getWorkflowRuns_keys:
  "fst ` set (getWorkflowRuns getTime pages)
     = effective_status ` {e \<in> set (fetched_entries pages). retained e}
   \<and> ((\<forall>e\<in>set (fetched_entries pages). \<forall>c. response_conclusion e = Concluded c
                                              \<longrightarrow> c \<notin> set unfinished_statuses)
        \<longrightarrow> set unfinished_statuses \<inter> fst ` set (getWorkflowRuns getTime pages) = {})"
proof (intro conjI impI)
  show keys: "fst ` set (getWorkflowRuns getTime pages)
     = effective_status ` {e \<in> set (fetched_entries pages). retained e}"
    by (simp only: keys_of_getWorkflowRuns collectRuns_statuses)
  assume h: "\<forall>e\<in>set (fetched_entries pages). \<forall>c. response_conclusion e = Concluded c
                                              \<longrightarrow> c \<notin> set unfinished_statuses"
  have "effective_status e \<notin> set unfinished_statuses"
    if "e \<in> set (fetched_entries pages)" "retained e" for e
    using that h by (cases "response_conclusion e") (auto simp: effective_status_def retained_def)
  then show "set unfinished_statuses \<inter> fst ` set (getWorkflowRuns getTime pages) = {}"
    unfolding keys by blast
qed

text \<open>
  Against claim C7 as stated: an entry with status \<^verbatim>\<open>completed\<close> and conclusion
  \<^verbatim>\<open>queued\<close> is retained and keyed \<^verbatim>\<open>queued\<close>.
\<close>

theorem getWorkflowRuns_keys_counterexample:
  "map fst (getWorkflowRuns epoch_clock
              [Page [raw_run ''completed'' (Concluded ''queued'')
                       ''1970-01-01T00:00:00Z'' ''1970-01-01T00:00:10Z'']])
     = [''queued'']"
  by code_simp

theorem getWorkflowRuns_keys_witness:
  "map fst (getWorkflowRuns epoch_clock example_pages) = [''success'']
   \<and> set unfinished_statuses \<inter> fst ` set (getWorkflowRuns epoch_clock example_pages) = {}"
proof -
  have h: "\<forall>e\<in>set (fetched_entries example_pages). \<forall>c. response_conclusion e = Concluded c
             \<longrightarrow> c \<notin> set unfinished_statuses"
    by (simp add: example_pages_def raw_run_def unfinished_statuses_def)
  have k: "map fst (getWorkflowRuns epoch_clock example_pages) = [''success'']"
    by code_simp
  show ?thesis using getWorkflowRuns_keys[of epoch_clock example_pages] h k by blast
qed

text \<open>
  Claim C8, as the code has it. For a retained entry, \<open>durationSeconds\<close> is
  \<open>floor((updated_at - created_at) / 1000)\<close> over the parsed millisecond timestamps
  (the binary64 quotient has the exact floor for differences up to \<open>2^52\<close> ms), and it
  is non-negative exactly when \<open>updated_at\<close> is not before \<open>created_at\<close>: the normalizer
  does not check the order of the two timestamps.
\<close>

theorem normalizeRun_durationSeconds:
  assumes "normalizeRun getTime e = Some r"
  shows "(\<bar>getTime (response_updated_at e) - getTime (response_created_at e)\<bar> \<le> 2 ^ 52
            \<longrightarrow> durationSeconds r
                = (getTime (response_updated_at e) - getTime (response_created_at e)) div 1000)
       \<and> (0 \<le> durationSeconds r
            \<longleftrightarrow> getTime (response_created_at e) \<le> getTime (response_updated_at e))"
proof (intro conjI impI)
  let ?d = "getTime (response_updated_at e) - getTime (response_created_at e)"
  let ?s = "js_sub (of_int (getTime (response_updated_at e))) (of_int (getTime (response_created_at e)))"
  have s: "?s = binary64 (of_int ?d)" by (simp add: js_sub_def)
  note dur = normalizeRun_Some(3)[OF assms]
  {
    assume b: "\<bar>?d\<bar> \<le> 2 ^ 52"
    then have "\<bar>?d\<bar> \<le> 2 ^ 53" by (rule order_trans) simp
    then have "?s = of_int ?d" unfolding s by (rule binary64_of_int_small)
    then show "durationSeconds r = ?d div 1000"
      using floor_binary64_div_1000[OF b] by (simp add: dur Math_floor_def js_quot_def)
  }
  have "0 \<le> durationSeconds r \<longleftrightarrow> 0 \<le> js_quot ?s 1000"
    by (simp add: dur Math_floor_def)
  also have "\<dots> \<longleftrightarrow> 0 \<le> ?s / 1000" by (simp only: js_quot_def binary64_nonneg_iff)
  also have "\<dots> \<longleftrightarrow> 0 \<le> ?s" by simp
  also have "\<dots> \<longleftrightarrow> 0 \<le> rat_of_int ?d" by (simp only: s binary64_nonneg_iff)
  also have "\<dots> \<longleftrightarrow> getTime (response_created_at e) \<le> getTime (response_updated_at e)" by simp
  finally show "0 \<le> durationSeconds r
            \<longleftrightarrow> getTime (response_created_at e) \<le> getTime (response_updated_at e)" .
qed

text \<open>
  Against claim C8 as stated: an entry updated ten seconds before it was created is
  retained with a duration of \<open>-10\<close> seconds.
\<close>

theorem normalizeRun_negative_duration_counterexample:
  "map_option durationSeconds
     (normalizeRun epoch_clock
        (raw_run ''completed'' (Concluded ''success'')
           ''1970-01-01T00:00:10Z'' ''1970-01-01T00:00:00Z''))
     = Some (- 10)"
  by code_simp

theorem normalizeRun_durationSeconds_witness:
  "normalizeRun epoch_clock
     (raw_run ''completed'' (Concluded ''success'') ''1970-01-01T00:00:00Z'' ''1970-01-01T00:00:10Z'')
     = Some \<lparr>run_id = 1, status = ''success'', created_at = ''1970-01-01T00:00:00Z'',
             updated_at = ''1970-01-01T00:00:10Z'', durationSeconds = 10\<rparr>
   \<and> durationSeconds \<lparr>run_id = 1, status = ''success'', created_at = ''1970-01-01T00:00:00Z'',
             updated_at = ''1970-01-01T00:00:10Z'', durationSeconds = 10\<rparr>
       = (epoch_clock ''1970-01-01T00:00:10Z'' - epoch_clock ''1970-01-01T00:00:00Z'') div 1000"
proof -
  let ?e = "raw_run ''completed'' (Concluded ''success'') ''1970-01-01T00:00:00Z'' ''1970-01-01T00:00:10Z''"
  let ?r = "\<lparr>run_id = 1, status = ''success'', created_at = ''1970-01-01T00:00:00Z'',
             updated_at = ''1970-01-01T00:00:10Z'', durationSeconds = 10\<rparr>"
  have n: "normalizeRun epoch_clock ?e = Some ?r" by code_simp
  have b: "\<bar>epoch_clock (response_updated_at ?e) - epoch_clock (response_created_at ?e)\<bar> \<le> 2 ^ 52"
    by (simp add: raw_run_def epoch_clock_def)
  from normalizeRun_durationSeconds[OF n] b
  have "durationSeconds ?r
          = (epoch_clock (response_updated_at ?e) - epoch_clock (response_created_at ?e)) div 1000"
    by blast
  then show ?thesis using n by (simp add: raw_run_def)
qed

section \<open>The workflow resolver\<close>

lemma resolveWorkflowId_first_success:
  assumes "\<forall>j<n. service (k + j) = LookupFails \<or> service (k + j) = LookupReturns 0"
    and "service (k + n) = LookupReturns w" and "w \<noteq> 0"
  shows "resolveWorkflowId service k = Some (w, Suc (k + n))"
  using assms
proof (induction n arbitrary: k)
  case 0
  then show ?case by (subst resolveWorkflowId.simps) simp
next
  case (Suc n)
  have step: "resolveWorkflowId service k = resolveWorkflowId service (Suc k)"
    using Suc.prems(1)[rule_format, of 0] by (subst resolveWorkflowId.simps) auto
  have "\<forall>j<n. service (Suc k + j) = LookupFails \<or> service (Suc k + j) = LookupReturns 0"
    using Suc.prems(1) by (metis Suc_less_eq add_Suc_shift)
  moreover have "service (Suc k + n) = LookupReturns w" using Suc.prems(2) by simp
  ultimately have "resolveWorkflowId service (Suc k) = Some (w, Suc (Suc k + n))"
    using Suc.prems(3) by (intro Suc.IH)
  then show ?case using step by simp
qed

lemma resolveWorkflowId_returns_success:
  assumes "resolveWorkflowId service k = Some y"
  shows "\<exists>j\<ge>k. \<exists>w. service j = LookupReturns w \<and> w \<noteq> 0"
proof (rule resolveWorkflowId.raw_induct
    [where P = "\<lambda>service k y. \<exists>j\<ge>k. \<exists>w. service j = LookupReturns w \<and> w \<noteq> 0",
      OF _ assms])
  fix resolve :: "(nat \<Rightarrow> lookup) \<Rightarrow> nat \<Rightarrow> (int \<times> nat) option"
  fix service k y
  assume IH: "\<And>s i z. resolve s i = Some z \<Longrightarrow>
                \<exists>j\<ge>i. \<exists>w. s j = LookupReturns w \<and> w \<noteq> 0"
    and eq: "(case service k of
                LookupFails \<Rightarrow> resolve service (Suc k)
              | LookupReturns workflow_id \<Rightarrow>
                  if workflow_id = 0 then resolve service (Suc k)
                  else Some (workflow_id, Suc k)) = Some y"
  show "\<exists>j\<ge>k. \<exists>w. service j = LookupReturns w \<and> w \<noteq> 0"
  proof (cases "service k")
    case LookupFails
    then have "resolve service (Suc k) = Some y" using eq by simp
    then obtain j w where "Suc k \<le> j" "service j = LookupReturns w" "w \<noteq> 0"
      using IH by blast
    then show ?thesis using Suc_leD by blast
  next
    case (LookupReturns w)
    show ?thesis
    proof (cases "w = 0")
      case True
      then have "resolve service (Suc k) = Some y" using eq LookupReturns by simp
      then obtain j w' where "Suc k \<le> j" "service j = LookupReturns w'" "w' \<noteq> 0"
        using IH by blast
      then show ?thesis using Suc_leD by blast
    next
      case False
      then show ?thesis using LookupReturns by blast
    qed
  qed
qed

lemma resolveWorkflowId_never:
  assumes "\<forall>j. service j = LookupFails \<or> service j = LookupReturns 0"
  shows "resolveWorkflowId service k = None"
proof (cases "resolveWorkflowId service k")
  case None
  then show ?thesis .
next
  case (Some y)
  then obtain j w where "service j = LookupReturns w" "w \<noteq> 0"
    using resolveWorkflowId_returns_success by blast
  then show ?thesis using assms by (metis lookup.distinct(1) lookup.inject)
qed

text \<open>
  What the two resolvers do. src/index.ts calls the lookup again after every failure (and
  after an identifier of 0): as soon as a call succeeds it returns that call's
  identifier, having made no call after it. The second file makes one call: its failure
  is raised to the caller, its success is returned.
\<close>

lemma resolveWorkflowId_behaviour:
  "(\<forall>n w. (\<forall>j<n. service j = LookupFails \<or> service j = LookupReturns 0)
            \<and> service n = LookupReturns w \<and> w \<noteq> 0
          \<longrightarrow> resolveWorkflowId service 0 = Some (w, Suc n))
   \<and> (service 0 = LookupFails \<longrightarrow> resolveWorkflowId_part000 service = Inl RequestError)
   \<and> (\<forall>w. service 0 = LookupReturns w \<longrightarrow> resolveWorkflowId_part000 service = Inr (w, 1))"
proof (intro conjI allI impI)
  fix n w
  assume "(\<forall>j<n. service j = LookupFails \<or> service j = LookupReturns 0)
            \<and> service n = LookupReturns w \<and> w \<noteq> 0"
  then show "resolveWorkflowId service 0 = Some (w, Suc n)"
    using resolveWorkflowId_first_success[of n service 0 w] by simp
next
  assume "service 0 = LookupFails"
  then show "resolveWorkflowId_part000 service = Inl RequestError"
    by (simp add: resolveWorkflowId_part000_def)
next
  fix w assume "service 0 = LookupReturns w"
  then show "resolveWorkflowId_part000 service = Inr (w, 1)"
    by (simp add: resolveWorkflowId_part000_def)
qed

text \<open>The second file ends on every lookup service: it returns or it raises.\<close>

lemma resolveWorkflowId_part000_ends:
  "resolveWorkflowId_part000 service = Inl RequestError
   \<or> (\<exists>w. resolveWorkflowId_part000 service = Inr (w, 1))"
  by (cases "service 0") (simp_all add: resolveWorkflowId_part000_def)

text \<open>Scenario D of the specification on src/index.ts: two failures, then an answer.\<close>

lemma scenario_D_third_attempt:
  "resolveWorkflowId fails_twice 0 = Some (42, 3)"
proof -
  have a: "\<forall>j<2. fails_twice (0 + j) = LookupFails \<or> fails_twice (0 + j) = LookupReturns 0"
    by (simp add: fails_twice_def)
  have b: "fails_twice (0 + 2) = LookupReturns 42" by (simp add: fails_twice_def)
  have c: "(42::int) \<noteq> 0" by simp
  have "resolveWorkflowId fails_twice 0 = Some (42, Suc (0 + 2))"
    using a b c by (rule resolveWorkflowId_first_success)
  then show ?thesis by (simp add: numeral_3_eq_3)
qed

text \<open>
  Claim C4: the resolver terminates under every failure pattern; when lookups keep
  failing it raises a fatal error to its caller instead of looping forever. The second
  file does so: it makes one call and raises its failure. src/index.ts does not: its
  \<^verbatim>\<open>while\<close> loop has no bound, and with a lookup that fails on every call it never
  returns and raises nothing.
\<close>

theorem resolveWorkflowId_persistent_failure:
  "resolveWorkflowId always_fails 0 = None
   \<and> resolveWorkflowId_part000 always_fails = Inl RequestError"
proof
  show "resolveWorkflowId always_fails 0 = None"
    by (rule resolveWorkflowId_never) (simp add: always_fails_def)
  show "resolveWorkflowId_part000 always_fails = Inl RequestError"
    by (simp add: resolveWorkflowId_part000_def always_fails_def)
qed

section \<open>The report assembler\<close>

lemma map_rows_Inr:
  assumes "\<forall>k\<in>set ks. f k = Inr (g k)"
  shows "map_rows f ks = Inr (map g ks)"
  using assms by (induction ks) simp_all

lemma breakdown_rows_part000:
  assumes "distinct (map fst m)"
  shows "map_rows (breakdownRow_part000 m t) (map fst m)
           = Inr (map (\<lambda>(k, g). (k, map_option (\<lambda>q. of_int (Math_ceil (js_mul q 100)))
                                        (js_div (of_nat (length (runs g))) (of_nat t)))) m)"
proof -
  let ?row = "\<lambda>k. (k, map_option (\<lambda>q. rat_of_int (Math_ceil (js_mul q 100)))
                       (js_div (of_nat (length (runs (the (map_of m k))))) (of_nat t)))"
  have "\<forall>k\<in>set (map fst m). breakdownRow_part000 m t k = Inr (?row k)"
  proof
    fix k assume "k \<in> set (map fst m)"
    then obtain g where "map_of m k = Some g"
      by (metis list.set_map map_of_eq_None_iff not_Some_eq)
    then show "breakdownRow_part000 m t k = Inr (?row k)"
      by (simp add: breakdownRow_part000_def)
  qed
  then have "map_rows (breakdownRow_part000 m t) (map fst m) = Inr (map ?row (map fst m))"
    by (rule map_rows_Inr)
  also have "map ?row (map fst m)
      = map (\<lambda>(k, g). (k, map_option (\<lambda>q. of_int (Math_ceil (js_mul q 100)))
                                        (js_div (of_nat (length (runs g))) (of_nat t)))) m"
    using assms by (auto simp: map_of_eq_Some_iff[THEN iffD2])
  finally show ?thesis .
qed

lemma breakdown_rows_part000_total:
  "\<exists>rows. map_rows (breakdownRow_part000 m t) (map fst m) = Inr rows"
proof -
  have "\<forall>k\<in>set (map fst m). breakdownRow_part000 m t k
          = Inr (k, map_option (\<lambda>q. rat_of_int (Math_ceil (js_mul q 100)))
                       (js_div (of_nat (length (runs (the (map_of m k))))) (of_nat t)))"
  proof
    fix k assume "k \<in> set (map fst m)"
    then obtain g where "map_of m k = Some g"
      by (metis list.set_map map_of_eq_None_iff not_Some_eq)
    then show "breakdownRow_part000 m t k
          = Inr (k, map_option (\<lambda>q. rat_of_int (Math_ceil (js_mul q 100)))
                       (js_div (of_nat (length (runs (the (map_of m k))))) (of_nat t)))"
      by (simp add: breakdownRow_part000_def)
  qed
  then have "map_rows (breakdownRow_part000 m t) (map fst m)
          = Inr (map (\<lambda>k. (k, map_option (\<lambda>q. rat_of_int (Math_ceil (js_mul q 100)))
                       (js_div (of_nat (length (runs (the (map_of m k))))) (of_nat t))))
                  (map fst m))"
    by (rule map_rows_Inr)
  then show ?thesis by (rule exI)
qed

text \<open>The second file never throws, whatever groups are missing.\<close>

lemma summarizeHistory_report_part000_total:
  "\<exists>sections. summarizeHistory_report_part000 m = Inr sections"
proof -
  obtain rows where "map_rows (breakdownRow_part000 m (totalRuns m)) (map fst m) = Inr rows"
    using breakdown_rows_part000_total by blast
  then show ?thesis by (simp add: summarizeHistory_report_part000_def Let_def)
qed

text \<open>The second file emits the success-rate heading exactly under its guard.\<close>

lemma summarizeHistory_report_part000_success_rate:
  assumes "summarizeHistory_report_part000 m = Inr sections"
  shows "(\<exists>rate a b. SuccessRate rate a b \<in> set sections)
           \<longleftrightarrow> (\<exists>s f. map_of m ''success'' = Some s \<and> map_of m ''failure'' = Some f
                      \<and> 0 < length (runs s) + length (runs f))"
    and "SuccessRate rate a b \<in> set sections \<Longrightarrow>
           \<exists>s f. map_of m ''success'' = Some s \<and> map_of m ''failure'' = Some f
                 \<and> a = length (runs s) \<and> b = length (runs s) + length (runs f)
                 \<and> rate = Some (Math_round (js_mul (js_quot (of_nat a) (of_nat b)) 100))"
  using assms
  by (auto simp: summarizeHistory_report_part000_def Let_def successRateSection_def
      percentileSection_def successRate_def js_div_def add_nonneg_eq_0_iff
      split: option.splits if_splits sum.splits)

text \<open>The breakdown table of the second file.\<close>

lemma summarizeHistory_report_part000_breakdown:
  assumes "distinct (map fst m)" and "0 < totalRuns m"
  shows "\<exists>sections. summarizeHistory_report_part000 m =
           Inr (sections @
                [BreakdownHeading,
                 BreakdownTable
                   (map (\<lambda>(k, g). (k, Some (of_int (Math_ceil (js_mul
                            (js_quot (of_nat (length (runs g))) (of_nat (totalRuns m))) 100)))))
                      m)])"
proof -
  have "map (\<lambda>(k, g). (k, map_option (\<lambda>q. rat_of_int (Math_ceil (js_mul q 100)))
                                        (js_div (of_nat (length (runs g))) (of_nat (totalRuns m))))) m
      = map (\<lambda>(k, g). (k, Some (of_int (Math_ceil (js_mul
                            (js_quot (of_nat (length (runs g))) (of_nat (totalRuns m))) 100))))) m"
    using assms(2) by (simp add: js_div_def)
  then show ?thesis
    using assms(2) breakdown_rows_part000[OF assms(1), of "totalRuns m"]
    by (simp add: summarizeHistory_report_part000_def Let_def)
qed

lemma breakdown_rows_total:
  "\<exists>rows. map_rows (breakdownRow m t) (map fst m) = Inr rows"
proof -
  have "\<forall>k\<in>set (map fst m). breakdownRow m t k
          = Inr (k, map_option (\<lambda>q. js_mul q 100)
                       (js_div (of_nat (length (runs (the (map_of m k))))) (of_nat t)))"
  proof
    fix k assume "k \<in> set (map fst m)"
    then obtain g where "map_of m k = Some g"
      by (metis list.set_map map_of_eq_None_iff not_Some_eq)
    then show "breakdownRow m t k
          = Inr (k, map_option (\<lambda>q. js_mul q 100)
                       (js_div (of_nat (length (runs (the (map_of m k))))) (of_nat t)))"
      by (simp add: breakdownRow_def)
  qed
  then have "map_rows (breakdownRow m t) (map fst m)
          = Inr (map (\<lambda>k. (k, map_option (\<lambda>q. js_mul q 100)
                       (js_div (of_nat (length (runs (the (map_of m k))))) (of_nat t))))
                  (map fst m))"
    by (rule map_rows_Inr)
  then show ?thesis by (rule exI)
qed

text \<open>src/index.ts throws exactly when one of the two groups is missing.\<close>

lemma summarizeHistory_report_raises:
  "summarizeHistory_report m = Inl TypeError
     \<longleftrightarrow> map_of m ''success'' = None \<or> map_of m ''failure'' = None"
proof -
  obtain rows where "map_rows (breakdownRow m (totalRuns m)) (map fst m) = Inr rows"
    using breakdown_rows_total by blast
  then show ?thesis
    by (simp add: summarizeHistory_report_def Let_def split: option.splits)
qed

text \<open>
  Claim C5: the success-rate heading appears only when both groups exist with a positive
  combined size, and a missing group is an omitted section, never an error. The second
  file does so (\<open>summarizeHistory_report_part000_total\<close>,
  \<open>summarizeHistory_report_part000_success_rate\<close>). src/index.ts does not
  (\<open>summarizeHistory_report_raises\<close>): on runs that all succeeded, and on no runs at all,
  it throws a \<^verbatim>\<open>TypeError\<close> and writes no report.
\<close>

theorem summarizeHistory_report_missing_group:
  "summarizeHistory_report only_success = Inl TypeError
   \<and> summarizeHistory_report [] = Inl TypeError
   \<and> summarizeHistory_report_part000 only_success
       = Inr [TotalRuns 1, RunCount ''successful'' 1,
              PercentileTable (Some 7) (Some 7) (Some 7),
              BreakdownHeading, BreakdownTable [(''success'', Some 100)]]
   \<and> summarizeHistory_report_part000 [] = Inr [TotalRuns 0]"
  by code_simp

text \<open>
  Claim C9: each row of the breakdown table shows \<open>ceil(groupSize / totalRuns * 100)\<close>.
  The second file does so, one row per status in the order of the groups
  (\<open>summarizeHistory_report_part000_breakdown\<close>). src/index.ts prints the quotient
  unrounded: one success in three runs is shown as \<open>33.33333333333333\<close>, not 34.
\<close>

theorem summarizeHistory_report_unrounded:
  "summarizeHistory_report one_of_three
     = Inr [TotalRuns 3, SuccessRate (Some 33) 1 3,
            RunCount ''successful'' 1, PercentileTable (Some 7) (Some 7) (Some 7),
            RunCount ''failing'' 2, PercentileTable (Some 3) (Some 3) (Some 3),
            BreakdownHeading,
            BreakdownTable [(''success'', Some (2345624805922133 / 70368744177664)),
                            (''failure'', Some (2345624805922133 / 35184372088832))]]
   \<and> Math_ceil (2345624805922133 / 70368744177664) = 34
   \<and> Math_ceil (2345624805922133 / 35184372088832) = 67
   \<and> summarizeHistory_report_part000 one_of_three
     = Inr [TotalRuns 3, SuccessRate (Some 33) 1 3,
            RunCount ''successful'' 1, PercentileTable (Some 7) (Some 7) (Some 7),
            RunCount ''failing'' 2, PercentileTable (Some 2) (Some 2) (Some 2),
            BreakdownHeading,
            BreakdownTable [(''success'', Some 34), (''failure'', Some 67)]]"
  by code_simp

end
